theory Spec2Isabelle
  imports Complex_Main
begin

section \<open>Configuration\<close>

text \<open>
  The constants of class \<open>Configuration\<close> that the simulation logic reads. Python's
  numbers (ints and floats mixed freely by the source) are modelled as mathematical
  numbers: \<open>real\<close> for positions and forces, \<open>int\<close> for sizes, lives and colours.
  Rounding and the non-finite values (infinities, NaN) of floating-point arithmetic are
  outside the model.
\<close>

type_synonym vec = "real \<times> real"

definition SCREEN_RESOLUTION :: vec where
  "SCREEN_RESOLUTION = (700, 700)"

definition PARTICLE_COUNT :: nat where
  "PARTICLE_COUNT = 3"

definition PARTICLE_SIZE :: int where
  "PARTICLE_SIZE = 10"

definition PARTICLE_SPAWN_OFFSET :: real where
  "PARTICLE_SPAWN_OFFSET = 10"

definition PARTICLE_COLOR_MIN :: int where
  "PARTICLE_COLOR_MIN = 100"

definition PARTICLE_COLOR_RANGE :: int where
  "PARTICLE_COLOR_RANGE = 155"

definition FORCE_LIMIT :: real where
  "FORCE_LIMIT = 2"

definition GRAVITON_SIZE :: int where
  "GRAVITON_SIZE = 1"

definition GRAVITON_LIFE :: int where
  "GRAVITON_LIFE = 100"

definition GRAVITON_CREATION_COUNT :: nat where
  "GRAVITON_CREATION_COUNT = 30"

definition GRAVITON_FORCE_ADDITION_RANGE :: real where
  "GRAVITON_FORCE_ADDITION_RANGE = 10"

definition GRAVITON_FORCE_APPLY_MULTIPLIER :: real where
  "GRAVITON_FORCE_APPLY_MULTIPLIER = - (1 / 100)"

definition GRAVITON_COLOR_MULTIPLIER :: real where
  "GRAVITON_COLOR_MULTIPLIER = 1 / 2"

section \<open>Particle\<close>

text \<open>
  A \<open>Particle\<close> object. The two-element lists \<open>position\<close> and \<open>forces\<close> are pairs
  (index 0 is \<open>fst\<close>, index 1 is \<open>snd\<close>); the in-place updates of the source return the
  updated record. The aliasing of the underlying list objects is treated in its own
  section below, on an explicit store.
\<close>

record particle =
  p_position :: vec
  p_forces :: vec
  p_color :: "int \<times> int \<times> int"
  p_size :: int

text \<open>
  \<open>Particle.__init__\<close>. The five draws of the random module are parameters:
  \<open>r0\<close>, \<open>r1\<close> are the results of \<open>random.random()\<close>, \<open>c0\<close>, \<open>c1\<close>, \<open>c2\<close> those of
  \<open>random.randint(0, PARTICLE_COLOR_RANGE)\<close>. The spawn zone is
  \<open>[x_min, y_min, x_max, y_max]\<close>.
\<close>

definition Particle_init ::
  "vec \<Rightarrow> real \<times> real \<times> real \<times> real \<Rightarrow> int \<Rightarrow> real \<Rightarrow> real \<Rightarrow> int \<Rightarrow> int \<Rightarrow> int \<Rightarrow> particle" where
  "Particle_init forces spawn_zone sz r0 r1 c0 c1 c2 =
     (case spawn_zone of (z0, z1, z2, z3) \<Rightarrow>
        \<lparr> p_position = (z0 + r0 * (z2 - z0), z1 + r1 * (z3 - z1)),
          p_forces = forces,
          p_color = (PARTICLE_COLOR_MIN + c0, PARTICLE_COLOR_MIN + c1, PARTICLE_COLOR_MIN + c2),
          p_size = sz \<rparr>)"

text \<open>
  One iteration of the loop body of \<open>Particle.apply_force\<close>, for the axis whose position,
  current force, applied force and limit are given; it returns the new force of the axis.
\<close>

definition apply_force_axis :: "int \<Rightarrow> real \<Rightarrow> real \<Rightarrow> real \<Rightarrow> real \<Rightarrow> real" where
  "apply_force_axis sz pos frc force lmt =
     (let projected_position = pos + frc + force;
          frc1 = (if projected_position - real_of_int sz < 0
                     \<or> projected_position + real_of_int sz > lmt
                  then frc * (- 1) else frc)
      in frc1 + force)"

definition Particle_apply_force :: "particle \<Rightarrow> vec \<Rightarrow> vec \<Rightarrow> particle" where
  "Particle_apply_force p force limits =
     p\<lparr> p_forces :=
          (apply_force_axis (p_size p) (fst (p_position p)) (fst (p_forces p)) (fst force) (fst limits),
           apply_force_axis (p_size p) (snd (p_position p)) (snd (p_forces p)) (snd force) (snd limits)) \<rparr>"

text \<open>
  One iteration of the loop body of \<open>Particle.update\<close>: it returns the new position and
  the new force of the axis.
\<close>

definition update_axis :: "int \<Rightarrow> real \<Rightarrow> real \<Rightarrow> real \<Rightarrow> real \<times> real" where
  "update_axis sz pos frc lmt =
     (let frc1 = max (min frc FORCE_LIMIT) (- FORCE_LIMIT);
          projected_position = pos + frc1;
          frc2 = (if projected_position - real_of_int sz < 0
                     \<or> projected_position + real_of_int sz > lmt
                  then frc1 * (- 1) else frc1)
      in (pos + frc2, frc2))"

definition Particle_update :: "particle \<Rightarrow> vec \<Rightarrow> particle" where
  "Particle_update p limits =
     (let a0 = update_axis (p_size p) (fst (p_position p)) (fst (p_forces p)) (fst limits);
          a1 = update_axis (p_size p) (snd (p_position p)) (snd (p_forces p)) (snd limits)
      in p\<lparr> p_position := (fst a0, fst a1), p_forces := (snd a0, snd a1) \<rparr>)"

text \<open>
  The calls a client can make on a particle, and a finite sequence of them run in order
  on one particle with fixed limits.
\<close>

datatype call = Update | Apply_force vec

fun do_call :: "vec \<Rightarrow> particle \<Rightarrow> call \<Rightarrow> particle" where
  "do_call limits p Update = Particle_update p limits"
| "do_call limits p (Apply_force force) = Particle_apply_force p force limits"

definition run_calls :: "vec \<Rightarrow> particle \<Rightarrow> call list \<Rightarrow> particle" where
  "run_calls limits p cs = foldl (do_call limits) p cs"

text \<open>The position lies within \<open>[size, limit - size]\<close> on both axes.\<close>

definition in_bounds :: "vec \<Rightarrow> particle \<Rightarrow> bool" where
  "in_bounds limits p \<longleftrightarrow>
     real_of_int (p_size p) \<le> fst (p_position p)
     \<and> fst (p_position p) \<le> fst limits - real_of_int (p_size p)
     \<and> real_of_int (p_size p) \<le> snd (p_position p)
     \<and> snd (p_position p) \<le> snd limits - real_of_int (p_size p)"

section \<open>Graviton\<close>

text \<open>
  A \<open>Graviton\<close> object. Its \<open>creator\<close> attribute is a reference to a \<open>Particle\<close> object;
  the particles live in the list \<open>particles\<close> of \<open>main\<close>, which is never changed after
  its construction, so a reference to a particle is its index in that list, and
  \<open>particle is graviton.creator\<close> is equality of indices.
\<close>

record graviton =
  g_creator :: nat
  g_position :: vec
  g_forces :: vec
  g_color :: "real \<times> real \<times> real"
  g_size :: int
  g_life :: int

text \<open>
  \<open>Graviton.__init__\<close>: \<open>cref\<close> is the reference stored in \<open>self.creator\<close> and \<open>creator\<close>
  the object it refers to, read for its colour. The defaults of \<open>size\<close> and \<open>life\<close> are
  supplied by the caller below.
\<close>

definition Graviton_init :: "nat \<Rightarrow> particle \<Rightarrow> vec \<Rightarrow> vec \<Rightarrow> int \<Rightarrow> int \<Rightarrow> graviton" where
  "Graviton_init cref creator pos frc sz lf =
     (case p_color creator of (c0, c1, c2) \<Rightarrow>
        \<lparr> g_creator = cref,
          g_position = pos,
          g_forces = frc,
          g_color = (real_of_int c0 * GRAVITON_COLOR_MULTIPLIER,
                     real_of_int c1 * GRAVITON_COLOR_MULTIPLIER,
                     real_of_int c2 * GRAVITON_COLOR_MULTIPLIER),
          g_size = sz,
          g_life = lf \<rparr>)"

definition Graviton_apply_force :: "graviton \<Rightarrow> vec \<Rightarrow> graviton" where
  "Graviton_apply_force g force =
     g\<lparr> g_forces := (fst (g_forces g) + fst force, snd (g_forces g) + snd force) \<rparr>"

definition Graviton_update :: "graviton \<Rightarrow> vec \<Rightarrow> graviton" where
  "Graviton_update g limits =
     g\<lparr> g_position := (fst (g_position g) + fst (g_forces g),
                        snd (g_position g) + snd (g_forces g)) \<rparr>"

section \<open>Rendering\<close>

text \<open>
  The calls made on the display, in the order the program makes them: \<open>Fill\<close> for
  \<open>screen.fill(BACKGROUND_COLOR)\<close>, \<open>Flip\<close> for \<open>pygame.display.flip()\<close>, and for each
  \<open>draw\<close> method the call of \<open>pygame.draw.circle\<close> with the object whose method it is
  (the index of a particle, the identity of a graviton), the colour, the centre and the
  radius. \<open>py_int\<close> is Python's \<open>int\<close> on a float: truncation towards zero.
\<close>

datatype drawing =
    Fill
  | Flip
  | Draw_particle nat "int \<times> int \<times> int" "int \<times> int" int
  | Draw_graviton nat "real \<times> real \<times> real" "int \<times> int" int

definition py_int :: "real \<Rightarrow> int" where
  "py_int x = (if 0 \<le> x then \<lfloor>x\<rfloor> else \<lceil>x\<rceil>)"

definition Particle_draw :: "nat \<Rightarrow> particle \<Rightarrow> drawing" where
  "Particle_draw i self =
     Draw_particle i (p_color self)
       (py_int (fst (p_position self)), py_int (snd (p_position self))) (p_size self)"

definition Graviton_draw :: "nat \<Rightarrow> graviton \<Rightarrow> drawing" where
  "Graviton_draw gid self =
     Draw_graviton gid (g_color self)
       (py_int (fst (g_position self)), py_int (snd (g_position self))) (g_size self)"

section \<open>The simulation loop\<close>

text \<open>
  The state of \<open>main\<close>. The list \<open>gravitons\<close> of the source holds references to
  \<open>Graviton\<close> objects, which the loop mutates in place while it iterates over a copy of
  the list, and \<open>gravitons.remove\<close> compares by identity (the class defines no \<open>__eq__\<close>).
  So the objects are kept in a store indexed by identity, and the list holds identities.
  \<open>next_id\<close> is the identity of the next object constructed; \<open>draws\<close> counts the calls
  of \<open>random.random()\<close> made by the loop, the \<open>k\<close>-th of which returns \<open>rnd k\<close>.
  \<open>screen\<close> is the display: the calls made on it so far.

  \<open>trace\<close> is not a variable of the program: it records, in order, the calls the loop
  makes, so that statements about which calls happen can be written down:
  \<open>Spawned g i\<close> for the construction of the graviton \<open>g\<close> by the particle of index \<open>i\<close>
  and its \<open>append\<close>, \<open>Expired g\<close> for the \<open>remove\<close> of the expiry test,
  \<open>Checked g i\<close> for a distance test of \<open>g\<close> against the particle \<open>i\<close>, and
  \<open>Hit g i f\<close> for \<open>apply_force(f, resolution)\<close> on the particle \<open>i\<close> followed by the
  \<open>remove\<close> of \<open>g\<close>.
\<close>

datatype event =
    Spawned nat nat
  | Expired nat
  | Checked nat nat
  | Hit nat nat vec

record sim =
  particles :: "particle list"
  gravitons :: "nat list"
  objects :: "nat \<Rightarrow> graviton"
  next_id :: nat
  draws :: nat
  screen :: "drawing list"
  trace :: "event list"

datatype error = ValueError

text \<open>\<open>math.hypot\<close>, the Euclidean norm.\<close>

definition hypot :: "real \<Rightarrow> real \<Rightarrow> real" where
  "hypot dx dy = sqrt (dx * dx + dy * dy)"

text \<open>
  The particles of \<open>main\<close>: \<open>PARTICLE_COUNT\<close> particles at rest in the spawn zone. The
  draws of the random module made by the \<open>k\<close>-th constructor call are \<open>init_draws k\<close>.
\<close>

definition spawn_zone :: "vec \<Rightarrow> real \<times> real \<times> real \<times> real" where
  "spawn_zone resolution =
     (PARTICLE_SPAWN_OFFSET, PARTICLE_SPAWN_OFFSET,
      fst resolution - PARTICLE_SPAWN_OFFSET, snd resolution - PARTICLE_SPAWN_OFFSET)"

definition main_init :: "(nat \<Rightarrow> real \<times> real \<times> int \<times> int \<times> int) \<Rightarrow> sim" where
  "main_init init_draws =
     \<lparr> particles =
         map (\<lambda>k. case init_draws k of (r0, r1, c0, c1, c2) \<Rightarrow>
                    Particle_init (0, 0) (spawn_zone SCREEN_RESOLUTION) PARTICLE_SIZE r0 r1 c0 c1 c2)
             [0..<PARTICLE_COUNT],
       gravitons = [],
       objects = (\<lambda>_. Graviton_init 0 (Particle_init (0, 0) (0, 0, 0, 0) 0 0 0 0 0 0)
                          (0, 0) (0, 0) 0 0),
       next_id = 0,
       draws = 0,
       screen = [],
       trace = [] \<rparr>"

text \<open>
  The body of \<open>for _ in range(GRAVITON_CREATION_COUNT)\<close>, for the particle of index
  \<open>i\<close>: one graviton is constructed from the particle's current position and forces and
  appended to \<open>gravitons\<close>.
\<close>

definition spawn_graviton :: "(nat \<Rightarrow> real) \<Rightarrow> nat \<Rightarrow> sim \<Rightarrow> sim" where
  "spawn_graviton rnd i s =
     (let particle = particles s ! i;
          graviton_position = p_position particle;
          graviton_forces =
            (fst (p_forces particle) + (rnd (draws s) - 1 / 2) * GRAVITON_FORCE_ADDITION_RANGE,
             snd (p_forces particle) + (rnd (draws s + 1) - 1 / 2) * GRAVITON_FORCE_ADDITION_RANGE);
          g = Graviton_init i particle graviton_position graviton_forces
                GRAVITON_SIZE GRAVITON_LIFE
      in s\<lparr> gravitons := gravitons s @ [next_id s],
            objects := (objects s)(next_id s := g),
            next_id := next_id s + 1,
            draws := draws s + 2,
            trace := trace s @ [Spawned (next_id s) i] \<rparr>)"

text \<open>
  The body of \<open>for particle in particles\<close> (first loop of a frame), for the particle of
  index \<open>i\<close>: \<open>draw\<close>, \<open>update\<close>, then the spawning loop.
\<close>

definition particle_step :: "(nat \<Rightarrow> real) \<Rightarrow> vec \<Rightarrow> nat \<Rightarrow> sim \<Rightarrow> sim" where
  "particle_step rnd resolution i s =
     (let s0 = s\<lparr> screen := screen s @ [Particle_draw i (particles s ! i)] \<rparr>;
          s1 = s0\<lparr> particles := (particles s0)[i := Particle_update (particles s0 ! i) resolution] \<rparr>
      in (spawn_graviton rnd i ^^ GRAVITON_CREATION_COUNT) s1)"

definition particle_phase :: "(nat \<Rightarrow> real) \<Rightarrow> vec \<Rightarrow> sim \<Rightarrow> sim" where
  "particle_phase rnd resolution s =
     fold (particle_step rnd resolution) [0..<length (particles s)] s"

text \<open>\<open>gravitons.remove(graviton)\<close>: it raises \<open>ValueError\<close> when the object is not in the list.\<close>

definition remove_graviton :: "nat \<Rightarrow> sim \<Rightarrow> error + sim" where
  "remove_graviton gid s =
     (if gid \<in> set (gravitons s)
      then Inr (s\<lparr> gravitons := remove1 gid (gravitons s) \<rparr>)
      else Inl ValueError)"

text \<open>
  The test of the inner loop: the distance between the centres, by \<open>math.hypot\<close>, is
  below the sum of the sizes.
\<close>

definition touches :: "particle \<Rightarrow> graviton \<Rightarrow> bool" where
  "touches particle graviton \<longleftrightarrow>
     (let dx = fst (g_position graviton) - fst (p_position particle);
          dy = snd (g_position graviton) - snd (p_position particle);
          distance = hypot dx dy
      in distance < real_of_int (p_size particle + g_size graviton))"

text \<open>The argument of \<open>particle.apply_force\<close> on a hit.\<close>

definition impulse :: "graviton \<Rightarrow> vec" where
  "impulse graviton =
     (fst (g_forces graviton) * GRAVITON_FORCE_APPLY_MULTIPLIER,
      snd (g_forces graviton) * GRAVITON_FORCE_APPLY_MULTIPLIER)"

text \<open>
  The inner loop \<open>for particle in particles\<close> of the graviton phase, for the graviton
  \<open>gid\<close> and the particle indices still to visit.
\<close>

fun collide :: "vec \<Rightarrow> nat \<Rightarrow> nat list \<Rightarrow> sim \<Rightarrow> error + sim" where
  "collide resolution gid [] s = Inr s"
| "collide resolution gid (i # rest) s =
     (let graviton = objects s gid; particle = particles s ! i
      in if i = g_creator graviton then collide resolution gid rest s
         else
           let s1 = s\<lparr> trace := trace s @ [Checked gid i] \<rparr>
           in if touches particle graviton
              then
                let s2 = s1\<lparr> particles :=
                               (particles s1)[i := Particle_apply_force particle
                                                     (impulse graviton) resolution],
                             trace := trace s1 @ [Hit gid i (impulse graviton)] \<rparr>
                in remove_graviton gid s2
              else collide resolution gid rest s1)"

text \<open>
  The second and third statements of the body of \<open>for graviton in gravitons[:]\<close>
  (\<open>update\<close> and the decrement of \<open>life\<close>), and the condition of the expiry test that
  follows them.
\<close>

definition moved :: "vec \<Rightarrow> graviton \<Rightarrow> graviton" where
  "moved resolution graviton =
     (let g1 = Graviton_update graviton resolution in g1\<lparr> g_life := g_life g1 - 1 \<rparr>)"

definition expired :: "vec \<Rightarrow> graviton \<Rightarrow> bool" where
  "expired resolution graviton \<longleftrightarrow>
     g_life graviton \<le> 0
     \<or> fst (g_position graviton) < 0
     \<or> fst (g_position graviton) > fst resolution
     \<or> snd (g_position graviton) < 0
     \<or> snd (g_position graviton) > snd resolution"

text \<open>
  The body of \<open>for graviton in gravitons[:]\<close>: draw, move, age, then either the
  expiry removal (and \<open>continue\<close>) or the collision loop.
\<close>

definition process_graviton :: "vec \<Rightarrow> nat \<Rightarrow> sim \<Rightarrow> error + sim" where
  "process_graviton resolution gid s =
     (let s0 = s\<lparr> screen := screen s @ [Graviton_draw gid (objects s gid)] \<rparr>;
          s1 = s0\<lparr> objects := (objects s0)(gid := moved resolution (objects s0 gid)) \<rparr>
      in if expired resolution (objects s1 gid)
         then remove_graviton gid (s1\<lparr> trace := trace s1 @ [Expired gid] \<rparr>)
         else collide resolution gid [0..<length (particles s1)] s1)"

fun graviton_phase :: "vec \<Rightarrow> nat list \<Rightarrow> sim \<Rightarrow> error + sim" where
  "graviton_phase resolution [] s = Inr s"
| "graviton_phase resolution (gid # gids) s =
     (case process_graviton resolution gid s of
        Inl e \<Rightarrow> Inl e
      | Inr s' \<Rightarrow> graviton_phase resolution gids s')"

text \<open>
  One iteration of \<open>while running\<close>: the display is filled, then come the particle
  loop, the graviton loop over the copy \<open>gravitons[:]\<close> taken when that loop starts,
  and the flip of the display. Pacing and event polling change none of this state.
\<close>

definition frame :: "(nat \<Rightarrow> real) \<Rightarrow> sim \<Rightarrow> error + sim" where
  "frame rnd s =
     (let resolution = SCREEN_RESOLUTION;
          s0 = s\<lparr> screen := screen s @ [Fill] \<rparr>;
          s1 = particle_phase rnd resolution s0
      in case graviton_phase resolution (gravitons s1) s1 of
           Inl e \<Rightarrow> Inl e
         | Inr s2 \<Rightarrow> Inr (s2\<lparr> screen := screen s2 @ [Flip] \<rparr>))"

fun frames :: "(nat \<Rightarrow> real) \<Rightarrow> nat \<Rightarrow> sim \<Rightarrow> error + sim" where
  "frames rnd 0 s = Inr s"
| "frames rnd (Suc n) s =
     (case frame rnd s of Inl e \<Rightarrow> Inl e | Inr s' \<Rightarrow> frames rnd n s')"

section \<open>Notions used to state the properties of the loop\<close>

text \<open>
  The graviton that the spawning loop constructs for the particle \<open>p\<close> of index \<open>i\<close>
  when the next draw of \<open>random.random()\<close> is the \<open>d\<close>-th.
\<close>

definition new_graviton :: "(nat \<Rightarrow> real) \<Rightarrow> nat \<Rightarrow> nat \<Rightarrow> particle \<Rightarrow> graviton" where
  "new_graviton rnd d i p =
     Graviton_init i p (p_position p)
       (fst (p_forces p) + (rnd d - 1 / 2) * GRAVITON_FORCE_ADDITION_RANGE,
        snd (p_forces p) + (rnd (d + 1) - 1 / 2) * GRAVITON_FORCE_ADDITION_RANGE)
       GRAVITON_SIZE GRAVITON_LIFE"

text \<open>
  The particle of index \<open>i\<close> stops the collision loop of the graviton \<open>g\<close>: it is not
  the creator and it touches the graviton. \<open>first_hit\<close> is the first such index among
  those visited, \<open>survives\<close> says that a graviton stays in the list in its iteration of
  the graviton loop.
\<close>

definition hits :: "particle list \<Rightarrow> graviton \<Rightarrow> nat \<Rightarrow> bool" where
  "hits ps g i \<longleftrightarrow> i \<noteq> g_creator g \<and> touches (ps ! i) g"

definition first_hit :: "particle list \<Rightarrow> graviton \<Rightarrow> nat list \<Rightarrow> nat option" where
  "first_hit ps g idxs = find (hits ps g) idxs"

definition survives :: "vec \<Rightarrow> particle list \<Rightarrow> graviton \<Rightarrow> bool" where
  "survives resolution ps g \<longleftrightarrow>
     \<not> expired resolution (moved resolution g)
     \<and> first_hit ps (moved resolution g) [0..<length ps] = None"

text \<open>The events that take a graviton out of the list, and their number in a trace.\<close>

fun removal_of :: "nat \<Rightarrow> event \<Rightarrow> bool" where
  "removal_of gid (Expired g) = (g = gid)"
| "removal_of gid (Hit g i f) = (g = gid)"
| "removal_of gid (Spawned g i) = False"
| "removal_of gid (Checked g i) = False"

definition removals :: "nat \<Rightarrow> event list \<Rightarrow> nat" where
  "removals gid tr = length (filter (removal_of gid) tr)"

text \<open>What the collision test reads of the particles: positions and sizes.\<close>

definition geom :: "particle list \<Rightarrow> (vec \<times> int) list" where
  "geom ps = map (\<lambda>p. (p_position p, p_size p)) ps"

text \<open>
  The calls recorded by the collision loop of the graviton \<open>gid\<close> over the particle
  indices \<open>idxs\<close>, by one whole iteration of the graviton loop, and the particles that
  iteration leaves.
\<close>

definition collide_events :: "nat \<Rightarrow> particle list \<Rightarrow> graviton \<Rightarrow> nat list \<Rightarrow> event list" where
  "collide_events gid ps g idxs =
     map (Checked gid) (filter (\<lambda>j. j \<noteq> g_creator g) (takeWhile (\<lambda>j. \<not> hits ps g j) idxs))
     @ (case first_hit ps g idxs of None \<Rightarrow> [] | Some i \<Rightarrow> [Checked gid i, Hit gid i (impulse g)])"

definition graviton_events :: "vec \<Rightarrow> nat \<Rightarrow> particle list \<Rightarrow> graviton \<Rightarrow> event list" where
  "graviton_events res gid ps g0 =
     (if expired res (moved res g0) then [Expired gid]
      else collide_events gid ps (moved res g0) [0..<length ps])"

definition particles_after :: "vec \<Rightarrow> particle list \<Rightarrow> graviton \<Rightarrow> particle list" where
  "particles_after res ps g0 =
     (if expired res (moved res g0) then ps
      else case first_hit ps (moved res g0) [0..<length ps] of
             None \<Rightarrow> ps
           | Some i \<Rightarrow> ps[i := Particle_apply_force (ps ! i) (impulse (moved res g0)) res])"

text \<open>
  The list of active gravitons holds each object once, and only objects already
  constructed.
\<close>

definition well_formed :: "sim \<Rightarrow> bool" where
  "well_formed s \<longleftrightarrow> distinct (gravitons s) \<and> (\<forall>k \<in> set (gravitons s). k < next_id s)"

text \<open>
  The number of gravitons constructed in a frame of \<open>main\<close>; the graviton an event is
  about; an event respects the creator when the particle it tests or strikes is not the
  creator of its graviton.
\<close>

definition per_frame :: nat where
  "per_frame = PARTICLE_COUNT * GRAVITON_CREATION_COUNT"

fun event_gid :: "event \<Rightarrow> nat" where
  "event_gid (Spawned g i) = g"
| "event_gid (Expired g) = g"
| "event_gid (Checked g i) = g"
| "event_gid (Hit g i f) = g"

fun creator_ok :: "(nat \<Rightarrow> graviton) \<Rightarrow> event \<Rightarrow> bool" where
  "creator_ok objs (Checked g i) = (i \<noteq> g_creator (objs g))"
| "creator_ok objs (Hit g i f) = (i \<noteq> g_creator (objs g))"
| "creator_ok objs (Spawned g i) = True"
| "creator_ok objs (Expired g) = True"

text \<open>
  The invariant of the loop of \<open>main\<close> after \<open>n\<close> frames: identities are handed out
  consecutively, \<open>per_frame\<close> in each frame; an active graviton has a positive life,
  which is \<open>GRAVITON_LIFE\<close> less the number of frames since the one that constructed it;
  the trace holds one removal for each graviton that has left the list and none for the
  others; and every recorded test or strike respects the creator.
\<close>

definition run_inv :: "nat \<Rightarrow> sim \<Rightarrow> bool" where
  "run_inv n s \<longleftrightarrow>
     length (particles s) = PARTICLE_COUNT
     \<and> next_id s = n * per_frame
     \<and> well_formed s
     \<and> (\<forall>k \<in> set (gravitons s).
           g_life (objects s k) = GRAVITON_LIFE - (int n - int (k div per_frame))
           \<and> 1 \<le> g_life (objects s k))
     \<and> (\<forall>k. removals k (trace s) = (if k < next_id s \<and> k \<notin> set (gravitons s) then 1 else 0))
     \<and> (\<forall>e \<in> set (trace s). event_gid e < next_id s \<and> creator_ok (objects s) e)"

text \<open>
  Concrete objects for the examples: a particle of the configured size, a graviton of
  the default size, and a state of the loop whose only active graviton has identity 0.
\<close>

definition example_particle :: "vec \<Rightarrow> vec \<Rightarrow> particle" where
  "example_particle pos frc =
     \<lparr> p_position = pos, p_forces = frc, p_color = (100, 100, 100), p_size = PARTICLE_SIZE \<rparr>"

definition example_graviton :: "nat \<Rightarrow> vec \<Rightarrow> vec \<Rightarrow> int \<Rightarrow> graviton" where
  "example_graviton c pos frc lf =
     \<lparr> g_creator = c, g_position = pos, g_forces = frc, g_color = (50, 50, 50),
       g_size = GRAVITON_SIZE, g_life = lf \<rparr>"

definition example_sim :: "particle list \<Rightarrow> graviton \<Rightarrow> sim" where
  "example_sim ps g =
     \<lparr> particles = ps, gravitons = [0], objects = (\<lambda>_. g), next_id = 1, draws = 0,
       screen = [], trace = [] \<rparr>"

text \<open>A state of the loop with one particle and no graviton yet.\<close>

definition single_sim :: "particle \<Rightarrow> sim" where
  "single_sim p =
     \<lparr> particles = [p], gravitons = [], objects = (\<lambda>_. example_graviton 0 (0, 0) (0, 0) 0),
       next_id = 0, draws = 0, screen = [], trace = [] \<rparr>"

section \<open>List objects and aliasing\<close>

text \<open>
  The value model above keeps the two-element lists inside the records. In the source
  they are list objects, reached through references and changed in place, so whether a
  graviton shares a list with a particle is a matter of which objects the attributes
  refer to. Here the list objects live in a store indexed by address; \<open>next_addr\<close> is
  the address of the next object allocated. \<open>Particle\<close> and \<open>Graviton\<close> objects hold
  addresses in their \<open>position\<close> and \<open>forces\<close> attributes.
\<close>

record store =
  cells :: "nat \<Rightarrow> vec"
  next_addr :: nat

text \<open>Reading and writing \<open>v[i]\<close> for \<open>i\<close> in \<open>range(2)\<close>, on a list and through an address.\<close>

definition item :: "vec \<Rightarrow> nat \<Rightarrow> real" where
  "item v i = (if i = 0 then fst v else snd v)"

definition set_item :: "vec \<Rightarrow> nat \<Rightarrow> real \<Rightarrow> vec" where
  "set_item v i x = (if i = 0 then (x, snd v) else (fst v, x))"

definition load :: "store \<Rightarrow> nat \<Rightarrow> nat \<Rightarrow> real" where
  "load h a i = item (cells h a) i"

definition stor :: "nat \<Rightarrow> nat \<Rightarrow> real \<Rightarrow> store \<Rightarrow> store" where
  "stor a i x h = h\<lparr> cells := (cells h)(a := set_item (cells h a) i x) \<rparr>"

text \<open>\<open>list.copy()\<close> and a list display \<open>[x, y]\<close>: each allocates a new list object.\<close>

definition list_copy :: "nat \<Rightarrow> store \<Rightarrow> nat \<times> store" where
  "list_copy a h = (next_addr h, h\<lparr> cells := (cells h)(next_addr h := cells h a), next_addr := Suc (next_addr h) \<rparr>)"

definition list_new :: "vec \<Rightarrow> store \<Rightarrow> nat \<times> store" where
  "list_new v h = (next_addr h, h\<lparr> cells := (cells h)(next_addr h := v), next_addr := Suc (next_addr h) \<rparr>)"

record particle_obj =
  o_position :: nat
  o_forces :: nat
  o_color :: "int \<times> int \<times> int"
  o_size :: int

record graviton_obj =
  go_creator :: nat
  go_position :: nat
  go_forces :: nat
  go_color :: "real \<times> real \<times> real"
  go_size :: int
  go_life :: int

text \<open>
  The loop bodies of \<open>Particle.apply_force\<close> and \<open>Particle.update\<close> for the index \<open>i\<close>,
  with every read and write of \<open>self.position[i]\<close> and \<open>self.forces[i]\<close> in the order of
  the source, and the two iterations of each loop.
\<close>

definition Particle_apply_force_item :: "particle_obj \<Rightarrow> vec \<Rightarrow> vec \<Rightarrow> nat \<Rightarrow> store \<Rightarrow> store" where
  "Particle_apply_force_item self force limits i h =
     (let projected_position = load h (o_position self) i + load h (o_forces self) i + item force i;
          h1 = (if projected_position - real_of_int (o_size self) < 0
                   \<or> projected_position + real_of_int (o_size self) > item limits i
                then stor (o_forces self) i (load h (o_forces self) i * (- 1)) h else h)
      in stor (o_forces self) i (load h1 (o_forces self) i + item force i) h1)"

definition Particle_apply_force_store :: "particle_obj \<Rightarrow> vec \<Rightarrow> vec \<Rightarrow> store \<Rightarrow> store" where
  "Particle_apply_force_store self force limits h =
     Particle_apply_force_item self force limits 1 (Particle_apply_force_item self force limits 0 h)"

definition Particle_update_item :: "particle_obj \<Rightarrow> vec \<Rightarrow> nat \<Rightarrow> store \<Rightarrow> store" where
  "Particle_update_item self limits i h =
     (let h1 = stor (o_forces self) i
                 (max (min (load h (o_forces self) i) FORCE_LIMIT) (- FORCE_LIMIT)) h;
          projected_position = load h1 (o_position self) i + load h1 (o_forces self) i;
          h2 = (if projected_position - real_of_int (o_size self) < 0
                   \<or> projected_position + real_of_int (o_size self) > item limits i
                then stor (o_forces self) i (load h1 (o_forces self) i * (- 1)) h1 else h1)
      in stor (o_position self) i (load h2 (o_position self) i + load h2 (o_forces self) i) h2)"

definition Particle_update_store :: "particle_obj \<Rightarrow> vec \<Rightarrow> store \<Rightarrow> store" where
  "Particle_update_store self limits h =
     Particle_update_item self limits 1 (Particle_update_item self limits 0 h)"

fun do_call_store :: "vec \<Rightarrow> particle_obj \<Rightarrow> store \<Rightarrow> call \<Rightarrow> store" where
  "do_call_store limits self h Update = Particle_update_store self limits h"
| "do_call_store limits self h (Apply_force force) = Particle_apply_force_store self force limits h"

definition run_calls_store :: "vec \<Rightarrow> particle_obj \<Rightarrow> call list \<Rightarrow> store \<Rightarrow> store" where
  "run_calls_store limits self cs h = foldl (do_call_store limits self) h cs"

text \<open>
  \<open>Graviton.__init__\<close> (\<open>self.position = position.copy()\<close>, \<open>self.forces = forces.copy()\<close>)
  and the construction of one graviton in \<open>main\<close> (lines 186 to 191), whose two draws of
  \<open>random.random()\<close> are \<open>r0\<close> and \<open>r1\<close>.
\<close>

definition Graviton_init_store ::
  "nat \<Rightarrow> particle_obj \<Rightarrow> nat \<Rightarrow> nat \<Rightarrow> int \<Rightarrow> int \<Rightarrow> store \<Rightarrow> graviton_obj \<times> store" where
  "Graviton_init_store cref creator pos frc sz lf h =
     (case list_copy pos h of (a, h1) \<Rightarrow>
      case list_copy frc h1 of (b, h2) \<Rightarrow>
      case o_color creator of (c0, c1, c2) \<Rightarrow>
        (\<lparr> go_creator = cref, go_position = a, go_forces = b,
           go_color = (real_of_int c0 * GRAVITON_COLOR_MULTIPLIER,
                       real_of_int c1 * GRAVITON_COLOR_MULTIPLIER,
                       real_of_int c2 * GRAVITON_COLOR_MULTIPLIER),
           go_size = sz, go_life = lf \<rparr>, h2))"

definition spawn_store ::
  "real \<Rightarrow> real \<Rightarrow> nat \<Rightarrow> particle_obj \<Rightarrow> store \<Rightarrow> graviton_obj \<times> store" where
  "spawn_store r0 r1 cref particle h =
     (case list_copy (o_position particle) h of (graviton_position, h1) \<Rightarrow>
      case list_new
             (load h1 (o_forces particle) 0 + (r0 - 1 / 2) * GRAVITON_FORCE_ADDITION_RANGE,
              load h1 (o_forces particle) 1 + (r1 - 1 / 2) * GRAVITON_FORCE_ADDITION_RANGE) h1
      of (graviton_forces, h2) \<Rightarrow>
        Graviton_init_store cref particle graviton_position graviton_forces
          GRAVITON_SIZE GRAVITON_LIFE h2)"

text \<open>The values of the value model read back from the store.\<close>

definition particle_of :: "store \<Rightarrow> particle_obj \<Rightarrow> particle" where
  "particle_of h self =
     \<lparr> p_position = cells h (o_position self), p_forces = cells h (o_forces self),
       p_color = o_color self, p_size = o_size self \<rparr>"

definition graviton_of :: "store \<Rightarrow> graviton_obj \<Rightarrow> graviton" where
  "graviton_of h self =
     \<lparr> g_creator = go_creator self, g_position = cells h (go_position self),
       g_forces = cells h (go_forces self), g_color = go_color self,
       g_size = go_size self, g_life = go_life self \<rparr>"

definition example_store :: store where
  "example_store = \<lparr> cells = (\<lambda>_. (0, 0))(0 := (350, 350), 1 := (1, - 1)), next_addr = 2 \<rparr>"

definition example_particle_obj :: particle_obj where
  "example_particle_obj =
     \<lparr> o_position = 0, o_forces = 1, o_color = (100, 100, 100), o_size = PARTICLE_SIZE \<rparr>"

section \<open>Properties of Particle\<close>

lemma update_axis_force_bound:
  "\<bar>snd (update_axis sz pos frc lmt)\<bar> \<le> FORCE_LIMIT"
  by (auto simp: update_axis_def Let_def FORCE_LIMIT_def)

text \<open>
  Claim C2. Immediately after \<open>Particle.update\<close> returns, the magnitude of the force is at
  most \<open>FORCE_LIMIT\<close> on both axes, whatever the particle, the limits and the force
  before the call.
\<close>

theorem Particle_update_force_clamped:
  "\<bar>fst (p_forces (Particle_update p limits))\<bar> \<le> FORCE_LIMIT
   \<and> \<bar>snd (p_forces (Particle_update p limits))\<bar> \<le> FORCE_LIMIT"
  by (simp add: Particle_update_def Let_def update_axis_force_bound)

lemma Particle_apply_force_position [simp]:
  "p_position (Particle_apply_force p force limits) = p_position p"
  by (simp add: Particle_apply_force_def)

lemma Particle_apply_force_size [simp]:
  "p_size (Particle_apply_force p force limits) = p_size p"
  by (simp add: Particle_apply_force_def)

lemma Particle_update_size [simp]:
  "p_size (Particle_update p limits) = p_size p"
  by (simp add: Particle_update_def Let_def)



lemma update_axis_position_bound:
  assumes "real_of_int sz * 2 + 2 * FORCE_LIMIT \<le> lmt"
    and "real_of_int sz \<le> pos" and "pos \<le> lmt - real_of_int sz"
  shows "real_of_int sz \<le> fst (update_axis sz pos frc lmt)
         \<and> fst (update_axis sz pos frc lmt) \<le> lmt - real_of_int sz"
  using assms by (auto simp: update_axis_def Let_def FORCE_LIMIT_def)

lemma Particle_update_in_bounds:
  assumes "real_of_int (p_size p) * 2 + 2 * FORCE_LIMIT \<le> fst limits"
    and "real_of_int (p_size p) * 2 + 2 * FORCE_LIMIT \<le> snd limits"
    and "in_bounds limits p"
  shows "in_bounds limits (Particle_update p limits)"
  using assms
    update_axis_position_bound [of "p_size p" "fst limits" "fst (p_position p)" "fst (p_forces p)"]
    update_axis_position_bound [of "p_size p" "snd limits" "snd (p_position p)" "snd (p_forces p)"]
  by (simp add: in_bounds_def Particle_update_def Let_def)

lemma Particle_apply_force_in_bounds:
  "in_bounds limits p \<Longrightarrow> in_bounds limits (Particle_apply_force p force limits)"
  by (simp add: in_bounds_def)

lemma do_call_size [simp]: "p_size (do_call limits p c) = p_size p"
  by (cases c) simp_all

lemma do_call_in_bounds:
  assumes "real_of_int (p_size p) * 2 + 2 * FORCE_LIMIT \<le> fst limits"
    and "real_of_int (p_size p) * 2 + 2 * FORCE_LIMIT \<le> snd limits"
    and "in_bounds limits p"
  shows "in_bounds limits (do_call limits p c)"
  using assms by (cases c) (simp_all add: Particle_update_in_bounds Particle_apply_force_in_bounds)

lemma run_calls_in_bounds:
  assumes "real_of_int (p_size p) * 2 + 2 * FORCE_LIMIT \<le> fst limits"
    and "real_of_int (p_size p) * 2 + 2 * FORCE_LIMIT \<le> snd limits"
    and "in_bounds limits p"
  shows "in_bounds limits (run_calls limits p cs)"
  using assms unfolding run_calls_def
proof (induction cs arbitrary: p)
  case Nil
  then show ?case by simp
next
  case (Cons c cs)
  have "in_bounds limits (do_call limits p c)"
    using Cons.prems by (rule do_call_in_bounds)
  with Cons.IH [of "do_call limits p c"] Cons.prems show ?case by simp
qed

lemma Particle_init_in_bounds:
  assumes "0 \<le> r0" "r0 < 1" "0 \<le> r1" "r1 < 1"
  shows "in_bounds SCREEN_RESOLUTION
           (Particle_init forces
              (spawn_zone SCREEN_RESOLUTION)
              PARTICLE_SIZE r0 r1 c0 c1 c2)"
  using assms
  by (simp add: in_bounds_def Particle_init_def SCREEN_RESOLUTION_def spawn_zone_def
      PARTICLE_SPAWN_OFFSET_def PARTICLE_SIZE_def)

text \<open>
  Claim C1. A particle whose position starts within \<open>[size, limit - size]\<close> on each
  axis, as the spawn zone of \<open>main\<close> guarantees for every draw of \<open>random.random()\<close>,
  has its position within \<open>[size, resolution - size]\<close> on both axes after every call of
  any finite sequence of \<open>update\<close> and \<open>apply_force\<close> calls, whatever the applied force
  vectors. This holds for the configured size and resolution, and for any size and
  limits that leave the particle room for one step of \<open>FORCE_LIMIT\<close> in each direction.
\<close>

theorem Particle_position_stays_in_bounds:
  "(0 \<le> r0 \<and> r0 < 1 \<and> 0 \<le> r1 \<and> r1 < 1 \<longrightarrow>
      in_bounds SCREEN_RESOLUTION
        (Particle_init forces
           (spawn_zone SCREEN_RESOLUTION)
           PARTICLE_SIZE r0 r1 c0 c1 c2))
   \<and> (p_size p = PARTICLE_SIZE \<and> in_bounds SCREEN_RESOLUTION p \<longrightarrow>
        (\<forall>n \<le> length cs. in_bounds SCREEN_RESOLUTION (run_calls SCREEN_RESOLUTION p (take n cs))))
   \<and> (real_of_int (p_size q) * 2 + 2 * FORCE_LIMIT \<le> fst limits
        \<and> real_of_int (p_size q) * 2 + 2 * FORCE_LIMIT \<le> snd limits
        \<and> in_bounds limits q \<longrightarrow>
        (\<forall>n \<le> length cs. in_bounds limits (run_calls limits q (take n cs))))"
proof (intro conjI impI allI)
  assume "0 \<le> r0 \<and> r0 < 1 \<and> 0 \<le> r1 \<and> r1 < 1"
  then show "in_bounds SCREEN_RESOLUTION
        (Particle_init forces
           (spawn_zone SCREEN_RESOLUTION)
           PARTICLE_SIZE r0 r1 c0 c1 c2)"
    by (simp add: Particle_init_in_bounds)
next
  fix n
  assume a: "p_size p = PARTICLE_SIZE \<and> in_bounds SCREEN_RESOLUTION p"
  then have "real_of_int (p_size p) * 2 + 2 * FORCE_LIMIT \<le> fst SCREEN_RESOLUTION"
    and "real_of_int (p_size p) * 2 + 2 * FORCE_LIMIT \<le> snd SCREEN_RESOLUTION"
    by (simp_all add: PARTICLE_SIZE_def FORCE_LIMIT_def SCREEN_RESOLUTION_def)
  with a show "in_bounds SCREEN_RESOLUTION (run_calls SCREEN_RESOLUTION p (take n cs))"
    by (simp add: run_calls_in_bounds)
next
  fix n
  assume "real_of_int (p_size q) * 2 + 2 * FORCE_LIMIT \<le> fst limits
        \<and> real_of_int (p_size q) * 2 + 2 * FORCE_LIMIT \<le> snd limits
        \<and> in_bounds limits q"
  then show "in_bounds limits (run_calls limits q (take n cs))"
    by (simp add: run_calls_in_bounds)
qed

theorem Particle_position_stays_in_bounds_witness:
  "in_bounds SCREEN_RESOLUTION
     (Particle_init (0, 0) (10, 10, 690, 690) 10 0 (1 / 2) 0 0 0)
   \<and> p_size (Particle_init (0, 0) (10, 10, 690, 690) 10 0 (1 / 2) 0 0 0) = PARTICLE_SIZE
   \<and> in_bounds SCREEN_RESOLUTION
       (run_calls SCREEN_RESOLUTION (Particle_init (0, 0) (10, 10, 690, 690) 10 0 (1 / 2) 0 0 0)
          [Apply_force (- 3, 7), Update, Update, Apply_force (1, - 9), Update])"
proof -
  let ?p = "Particle_init (0, 0) (10, 10, 690, 690) 10 0 (1 / 2) 0 0 0"
  let ?cs = "[Apply_force (- 3, 7), Update, Update, Apply_force (1, - 9), Update]"
  have b: "in_bounds SCREEN_RESOLUTION ?p"
    by (simp add: in_bounds_def SCREEN_RESOLUTION_def Particle_init_def)
  have s: "p_size ?p = PARTICLE_SIZE"
    by (simp add: Particle_init_def PARTICLE_SIZE_def)
  from Particle_position_stays_in_bounds
    [where ?r0.0 = 0 and ?r1.0 = "1 / 2" and p = ?p and cs = ?cs] b s
  have "\<forall>n \<le> length ?cs. in_bounds SCREEN_RESOLUTION (run_calls SCREEN_RESOLUTION ?p (take n ?cs))"
    by blast
  then have "in_bounds SCREEN_RESOLUTION (run_calls SCREEN_RESOLUTION ?p (take (length ?cs) ?cs))"
    by blast
  with b s show ?thesis by simp
qed

section \<open>The particle phase of a frame\<close>

lemma spawn_graviton_fields [simp]:
  "particles (spawn_graviton rnd i s) = particles s"
  "gravitons (spawn_graviton rnd i s) = gravitons s @ [next_id s]"
  "next_id (spawn_graviton rnd i s) = Suc (next_id s)"
  "draws (spawn_graviton rnd i s) = draws s + 2"
  "trace (spawn_graviton rnd i s) = trace s @ [Spawned (next_id s) i]"
  "screen (spawn_graviton rnd i s) = screen s"
  by (simp_all add: spawn_graviton_def Let_def)

lemma spawn_graviton_objects:
  "objects (spawn_graviton rnd i s) =
     (objects s)(next_id s :=
        Graviton_init i (particles s ! i) (p_position (particles s ! i))
          (fst (p_forces (particles s ! i)) + (rnd (draws s) - 1 / 2) * GRAVITON_FORCE_ADDITION_RANGE,
           snd (p_forces (particles s ! i)) + (rnd (draws s + 1) - 1 / 2) * GRAVITON_FORCE_ADDITION_RANGE)
          GRAVITON_SIZE GRAVITON_LIFE)"
  by (simp add: spawn_graviton_def Let_def)

lemma spawn_funpow_fields [simp]:
  "particles ((spawn_graviton rnd i ^^ n) s) = particles s"
  "gravitons ((spawn_graviton rnd i ^^ n) s) = gravitons s @ [next_id s ..< next_id s + n]"
  "next_id ((spawn_graviton rnd i ^^ n) s) = next_id s + n"
  "draws ((spawn_graviton rnd i ^^ n) s) = draws s + 2 * n"
  "trace ((spawn_graviton rnd i ^^ n) s) = trace s @ map (\<lambda>k. Spawned k i) [next_id s ..< next_id s + n]"
  "screen ((spawn_graviton rnd i ^^ n) s) = screen s"
  by (induction n) simp_all

lemma spawn_funpow_objects:
  "objects ((spawn_graviton rnd i ^^ n) s) k =
     (if next_id s \<le> k \<and> k < next_id s + n
      then new_graviton rnd (draws s + 2 * (k - next_id s)) i (particles s ! i)
      else objects s k)"
proof (induction n)
  case 0
  then show ?case by auto
next
  case (Suc n)
  show ?case
  proof (cases "k = next_id s + n")
    case True
    then show ?thesis
      by (simp add: spawn_graviton_objects new_graviton_def)
  next
    case False
    then show ?thesis
      using Suc by (auto simp: spawn_graviton_objects)
  qed
qed

lemma particle_step_fields:
  "particles (particle_step rnd res i s) = (particles s)[i := Particle_update (particles s ! i) res]"
  "gravitons (particle_step rnd res i s) =
     gravitons s @ [next_id s ..< next_id s + GRAVITON_CREATION_COUNT]"
  "next_id (particle_step rnd res i s) = next_id s + GRAVITON_CREATION_COUNT"
  "draws (particle_step rnd res i s) = draws s + 2 * GRAVITON_CREATION_COUNT"
  "trace (particle_step rnd res i s) =
     trace s @ map (\<lambda>k. Spawned k i) [next_id s ..< next_id s + GRAVITON_CREATION_COUNT]"
  "screen (particle_step rnd res i s) = screen s @ [Particle_draw i (particles s ! i)]"
  by (simp_all add: particle_step_def Let_def)

lemma particle_step_objects:
  "i < length (particles s) \<Longrightarrow>
   objects (particle_step rnd res i s) k =
     (if next_id s \<le> k \<and> k < next_id s + GRAVITON_CREATION_COUNT
      then new_graviton rnd (draws s + 2 * (k - next_id s)) i (Particle_update (particles s ! i) res)
      else objects s k)"
  by (simp add: particle_step_def Let_def spawn_funpow_objects)

lemma upt_append_add:
  "[a ..< a + x] @ [a + x ..< a + x + y] = [a ..< a + (y + x)]"
  using upt_add_eq_append [of a "a + x" y] by (simp add: add.commute add.left_commute)

lemma fold_particle_step_fields:
  assumes "m \<le> length (particles s)"
  shows "length (particles (fold (particle_step rnd res) [0..<m] s)) = length (particles s)"
    and "gravitons (fold (particle_step rnd res) [0..<m] s) =
           gravitons s @ [next_id s ..< next_id s + m * GRAVITON_CREATION_COUNT]"
    and "next_id (fold (particle_step rnd res) [0..<m] s) = next_id s + m * GRAVITON_CREATION_COUNT"
    and "draws (fold (particle_step rnd res) [0..<m] s) = draws s + 2 * (m * GRAVITON_CREATION_COUNT)"
  using assms
proof (induction m)
  case 0
  {
    case 1 show ?case by simp
  next
    case 2 show ?case by simp
  next
    case 3 show ?case by simp
  next
    case 4 show ?case by simp
  }
next
  case (Suc m)
  {
    case 1 then show ?case using Suc.IH(1) by (simp add: particle_step_fields)
  next
    case 2 then show ?case using Suc.IH(2,3)
      by (simp add: particle_step_fields upt_append_add)
  next
    case 3 then show ?case using Suc.IH(3) by (simp add: particle_step_fields)
  next
    case 4 then show ?case using Suc.IH(4) by (simp add: particle_step_fields)
  }
qed

lemma fold_particle_step_particles:
  assumes "m \<le> length (particles s)" and "j < length (particles s)"
  shows "particles (fold (particle_step rnd res) [0..<m] s) ! j =
           (if j < m then Particle_update (particles s ! j) res else particles s ! j)"
  using assms
proof (induction m)
  case 0
  then show ?case by simp
next
  case (Suc m)
  then show ?case
    by (auto simp: particle_step_fields fold_particle_step_fields(1) nth_list_update)
qed

lemma div_in_block:
  fixes c :: nat
  assumes "m * c \<le> x" and "x < m * c + c"
  shows "x div c = m"
proof -
  have "0 < c" using assms by (cases c) auto
  then show ?thesis using assms
    by (metis add.commute div_nat_eqI mult.commute mult_Suc_right)
qed

lemma fold_particle_step_objects:
  assumes "m \<le> length (particles s)"
  shows "objects (fold (particle_step rnd res) [0..<m] s) k =
           (if next_id s \<le> k \<and> k < next_id s + m * GRAVITON_CREATION_COUNT
            then new_graviton rnd (draws s + 2 * (k - next_id s))
                   ((k - next_id s) div GRAVITON_CREATION_COUNT)
                   (Particle_update (particles s ! ((k - next_id s) div GRAVITON_CREATION_COUNT)) res)
            else objects s k)"
  using assms
proof (induction m)
  case 0
  then show ?case by auto
next
  case (Suc m)
  let ?s' = "fold (particle_step rnd res) [0..<m] s"
  let ?C = "GRAVITON_CREATION_COUNT"
  have m: "m \<le> length (particles s)" "m < length (particles s)" using Suc.prems by simp_all
  have len: "m < length (particles ?s')" using m by (simp add: fold_particle_step_fields(1))
  have pm: "particles ?s' ! m = particles s ! m"
    using m by (simp add: fold_particle_step_particles)
  have nid: "next_id ?s' = next_id s + m * ?C" and dr: "draws ?s' = draws s + 2 * (m * ?C)"
    using m by (simp_all add: fold_particle_step_fields)
  have step: "objects (fold (particle_step rnd res) [0..<Suc m] s) k =
      (if next_id ?s' \<le> k \<and> k < next_id ?s' + ?C
       then new_graviton rnd (draws ?s' + 2 * (k - next_id ?s')) m (Particle_update (particles ?s' ! m) res)
       else objects ?s' k)"
    using len by (simp add: particle_step_objects)
  show ?case
  proof (cases "next_id ?s' \<le> k \<and> k < next_id ?s' + ?C")
    case True
    then have d: "(k - next_id s) div ?C = m"
      using nid by (intro div_in_block) auto
    have "draws ?s' + 2 * (k - next_id ?s') = draws s + 2 * (k - next_id s)"
      using True nid dr by auto
    with True d pm nid show ?thesis unfolding step by auto
  next
    case False
    then show ?thesis unfolding step using Suc.IH [OF m(1)] nid by auto
  qed
qed

lemma fold_particle_step_trace:
  assumes "m \<le> length (particles s)"
  shows "trace (fold (particle_step rnd res) [0..<m] s) =
           trace s @ map (\<lambda>k. Spawned k ((k - next_id s) div GRAVITON_CREATION_COUNT))
                       [next_id s ..< next_id s + m * GRAVITON_CREATION_COUNT]"
  using assms
proof (induction m)
  case 0
  then show ?case by simp
next
  case (Suc m)
  let ?s' = "fold (particle_step rnd res) [0..<m] s"
  let ?C = "GRAVITON_CREATION_COUNT"
  let ?a = "next_id s + m * ?C"
  have m: "m \<le> length (particles s)" using Suc.prems by simp
  have nid: "next_id ?s' = ?a"
    using m by (simp add: fold_particle_step_fields)
  have blk: "map (\<lambda>k. Spawned k m) [?a ..< ?a + ?C] =
             map (\<lambda>k. Spawned k ((k - next_id s) div ?C)) [?a ..< ?a + ?C]"
  proof (rule map_cong [OF refl])
    fix k assume "k \<in> set [?a ..< ?a + ?C]"
    then have "(k - next_id s) div ?C = m" by (intro div_in_block) auto
    then show "Spawned k m = Spawned k ((k - next_id s) div ?C)" by simp
  qed
  have "trace (fold (particle_step rnd res) [0..<Suc m] s) =
        trace ?s' @ map (\<lambda>k. Spawned k m) [?a ..< ?a + ?C]"
    by (simp add: particle_step_fields nid)
  also have "\<dots> = trace s @ map (\<lambda>k. Spawned k ((k - next_id s) div ?C))
                               ([next_id s ..< ?a] @ [?a ..< ?a + ?C])"
    unfolding blk using Suc.IH [OF m] by simp
  also have "[next_id s ..< ?a] @ [?a ..< ?a + ?C] = [next_id s ..< next_id s + Suc m * ?C]"
    by (simp add: upt_append_add)
  finally show ?case .
qed

lemma fold_particle_step_screen:
  assumes "m \<le> length (particles s)"
  shows "screen (fold (particle_step rnd res) [0..<m] s) =
           screen s @ map (\<lambda>i. Particle_draw i (particles s ! i)) [0..<m]"
  using assms
proof (induction m)
  case 0
  then show ?case by simp
next
  case (Suc m)
  then have "particles (fold (particle_step rnd res) [0..<m] s) ! m = particles s ! m"
    by (simp add: fold_particle_step_particles)
  with Suc show ?case
    by (simp add: particle_step_fields)
qed

lemmas particle_phase_simps =
  fold_particle_step_fields [OF order_refl, folded particle_phase_def]
  fold_particle_step_objects [OF order_refl, folded particle_phase_def]
  fold_particle_step_trace [OF order_refl, folded particle_phase_def]

lemmas particle_phase_screen =
  fold_particle_step_screen [OF order_refl, folded particle_phase_def]

lemma particle_phase_particles:
  "j < length (particles s) \<Longrightarrow>
   particles (particle_phase rnd res s) ! j = Particle_update (particles s ! j) res"
  using fold_particle_step_particles [OF order_refl, of j s rnd res]
  by (simp add: particle_phase_def)

section \<open>The graviton phase of a frame\<close>

lemma remove_graviton_in:
  "gid \<in> set (gravitons s) \<Longrightarrow>
   remove_graviton gid s = Inr (s\<lparr> gravitons := remove1 gid (gravitons s) \<rparr>)"
  by (simp add: remove_graviton_def)

lemma collide_events_Nil [simp]: "collide_events gid ps g [] = []"
  by (simp add: collide_events_def first_hit_def)

lemma collide_events_Cons:
  "collide_events gid ps g (i # rest) =
     (if hits ps g i then [Checked gid i, Hit gid i (impulse g)]
      else (if i \<noteq> g_creator g then [Checked gid i] else []) @ collide_events gid ps g rest)"
  by (simp add: collide_events_def first_hit_def hits_def)

lemma first_hit_Cons:
  "first_hit ps g (i # rest) = (if hits ps g i then Some i else first_hit ps g rest)"
  by (simp add: first_hit_def)

lemma collide_result:
  assumes "gid \<in> set (gravitons s)"
  shows "collide res gid idxs s =
     Inr (case first_hit (particles s) (objects s gid) idxs of
            None \<Rightarrow> s\<lparr> trace := trace s @ collide_events gid (particles s) (objects s gid) idxs \<rparr>
          | Some i \<Rightarrow>
              s\<lparr> particles := (particles s)[i := Particle_apply_force (particles s ! i)
                                                   (impulse (objects s gid)) res],
                 gravitons := remove1 gid (gravitons s),
                 trace := trace s @ collide_events gid (particles s) (objects s gid) idxs \<rparr>)"
  using assms
proof (induction idxs arbitrary: s)
  case Nil
  then show ?case by (simp add: first_hit_def)
next
  case (Cons i rest)
  show ?case
  proof (cases "i = g_creator (objects s gid)")
    case True
    then have "\<not> hits (particles s) (objects s gid) i" by (simp add: hits_def)
    with True show ?thesis
      using Cons.IH [OF Cons.prems]
      by (simp add: first_hit_Cons collide_events_Cons Let_def split: option.splits)
  next
    case nc: False
    show ?thesis
    proof (cases "touches (particles s ! i) (objects s gid)")
      case True
      then have "hits (particles s) (objects s gid) i" using nc by (simp add: hits_def)
      then show ?thesis
        using nc True Cons.prems
        by (simp add: first_hit_Cons collide_events_Cons Let_def remove_graviton_def)
    next
      case False
      then have nh: "\<not> hits (particles s) (objects s gid) i" by (simp add: hits_def)
      let ?s1 = "s\<lparr> trace := trace s @ [Checked gid i] \<rparr>"
      have "gid \<in> set (gravitons ?s1)" using Cons.prems by simp
      from Cons.IH [OF this] False nc nh show ?thesis
        by (simp add: first_hit_Cons collide_events_Cons Let_def split: option.splits)
    qed
  qed
qed

lemma process_graviton_result:
  assumes "gid \<in> set (gravitons s)"
  shows "process_graviton res gid s =
     Inr (s\<lparr> particles := particles_after res (particles s) (objects s gid),
              gravitons := (if survives res (particles s) (objects s gid) then gravitons s
                            else remove1 gid (gravitons s)),
              objects := (objects s)(gid := moved res (objects s gid)),
              screen := screen s @ [Graviton_draw gid (objects s gid)],
              trace := trace s @ graviton_events res gid (particles s) (objects s gid) \<rparr>)"
proof -
  let ?s1 = "s\<lparr> screen := screen s @ [Graviton_draw gid (objects s gid)],
               objects := (objects s)(gid := moved res (objects s gid)) \<rparr>"
  have in1: "gid \<in> set (gravitons ?s1)" using assms by simp
  show ?thesis
  proof (cases "expired res (moved res (objects s gid))")
    case True
    then show ?thesis
      using assms
      by (simp add: process_graviton_def Let_def remove_graviton_def particles_after_def
          survives_def graviton_events_def)
  next
    case False
    then show ?thesis
      using collide_result [OF in1, of res "[0..<length (particles s)]"]
      by (simp add: process_graviton_def Let_def particles_after_def
          survives_def graviton_events_def split: option.splits)
  qed
qed

lemma geom_length: "geom ps = geom ps' \<Longrightarrow> length ps = length ps'"
  by (drule arg_cong [where f = length]) (simp add: geom_def)

lemma geom_nth:
  "geom ps = geom ps' \<Longrightarrow> i < length ps \<Longrightarrow>
   p_position (ps ! i) = p_position (ps' ! i) \<and> p_size (ps ! i) = p_size (ps' ! i)"
proof -
  assume g: "geom ps = geom ps'" and i: "i < length ps"
  then have i': "i < length ps'" using geom_length [of ps ps'] by simp
  from g have "geom ps ! i = geom ps' ! i" by simp
  with i i' show ?thesis by (simp add: geom_def)
qed

lemma hits_geom:
  "geom ps = geom ps' \<Longrightarrow> i < length ps \<Longrightarrow> hits ps g i = hits ps' g i"
  using geom_nth [of ps ps' i] by (simp add: hits_def touches_def)

lemma first_hit_geom:
  assumes "geom ps = geom ps'" and "\<forall>i \<in> set idxs. i < length ps"
  shows "first_hit ps g idxs = first_hit ps' g idxs"
  using assms(2)
  by (induction idxs) (simp_all add: first_hit_def hits_geom [OF assms(1)])

lemma collide_events_geom:
  assumes "geom ps = geom ps'" and "\<forall>i \<in> set idxs. i < length ps"
  shows "collide_events gid ps g idxs = collide_events gid ps' g idxs"
  using assms(2)
  by (induction idxs) (simp_all add: collide_events_Cons hits_geom [OF assms(1)])

lemma survives_geom:
  "geom ps = geom ps' \<Longrightarrow> survives res ps g = survives res ps' g"
  using first_hit_geom [of ps ps' "[0..<length ps]"] geom_length [of ps ps']
  by (simp add: survives_def)

lemma graviton_events_geom:
  "geom ps = geom ps' \<Longrightarrow> graviton_events res gid ps g = graviton_events res gid ps' g"
  using collide_events_geom [of ps ps' "[0..<length ps]"] geom_length [of ps ps']
  by (simp add: graviton_events_def)

lemma first_hit_Some_in:
  "first_hit ps g idxs = Some i \<Longrightarrow> i \<in> set idxs \<and> hits ps g i"
  unfolding first_hit_def by (induction idxs) (auto split: if_splits)

lemma geom_apply_force:
  "geom (ps[i := Particle_apply_force (ps ! i) f res]) = geom ps"
proof (cases "i < length ps")
  case True
  have "geom (ps[i := Particle_apply_force (ps ! i) f res]) = (geom ps)[i := geom ps ! i]"
    using True by (simp add: geom_def map_update)
  then show ?thesis by simp
next
  case False
  then have "ps[i := Particle_apply_force (ps ! i) f res] = ps"
    by (simp add: list_update_beyond)
  then show ?thesis by simp
qed

lemma geom_particles_after [simp]:
  "geom (particles_after res ps g0) = geom ps"
  by (simp add: particles_after_def geom_apply_force split: option.splits)

lemma remove1_as_filter:
  "distinct xs \<Longrightarrow> remove1 x xs = filter (\<lambda>k. k \<noteq> x) xs"
  by (simp add: distinct_remove1_removeAll removeAll_filter_not_eq) (metis)

lemma graviton_phase_result:
  assumes "distinct gids" and "set gids \<subseteq> set (gravitons s)" and "distinct (gravitons s)"
  shows "\<exists>s'. graviton_phase res gids s = Inr s'
     \<and> geom (particles s') = geom (particles s)
     \<and> gravitons s' =
         filter (\<lambda>k. k \<in> set gids \<longrightarrow> survives res (particles s) (objects s k)) (gravitons s)
     \<and> objects s' = (\<lambda>k. if k \<in> set gids then moved res (objects s k) else objects s k)
     \<and> next_id s' = next_id s
     \<and> draws s' = draws s
     \<and> trace s' =
         trace s @ concat (map (\<lambda>k. graviton_events res k (particles s) (objects s k)) gids)
     \<and> screen s' = screen s @ map (\<lambda>k. Graviton_draw k (objects s k)) gids"
  using assms
proof (induction gids arbitrary: s)
  case Nil
  then show ?case by simp
next
  case (Cons gid gids)
  let ?ps = "particles s"
  let ?s1 = "s\<lparr> particles := particles_after res ?ps (objects s gid),
               gravitons := (if survives res ?ps (objects s gid) then gravitons s
                             else remove1 gid (gravitons s)),
               objects := (objects s)(gid := moved res (objects s gid)),
               screen := screen s @ [Graviton_draw gid (objects s gid)],
               trace := trace s @ graviton_events res gid ?ps (objects s gid) \<rparr>"
  have gin: "gid \<in> set (gravitons s)" and notin: "gid \<notin> set gids" and dg: "distinct gids"
    and sub: "set gids \<subseteq> set (gravitons s)"
    using Cons.prems by auto
  have p: "process_graviton res gid s = Inr ?s1"
    using gin by (rule process_graviton_result)
  have sub1: "set gids \<subseteq> set (gravitons ?s1)"
  proof
    fix k assume k: "k \<in> set gids"
    then have "k \<noteq> gid" using notin by auto
    moreover have "k \<in> set (gravitons s)" using k sub by auto
    ultimately show "k \<in> set (gravitons ?s1)" by (simp add: in_set_remove1)
  qed
  have d1: "distinct (gravitons ?s1)"
    using Cons.prems(3) by simp
  from Cons.IH [OF dg sub1 d1] obtain s' where
    r: "graviton_phase res gids ?s1 = Inr s'"
    and g: "geom (particles s') = geom (particles ?s1)"
    and gr: "gravitons s' =
         filter (\<lambda>k. k \<in> set gids \<longrightarrow> survives res (particles ?s1) (objects ?s1 k)) (gravitons ?s1)"
    and ob: "objects s' = (\<lambda>k. if k \<in> set gids then moved res (objects ?s1 k) else objects ?s1 k)"
    and ni: "next_id s' = next_id ?s1" and dr: "draws s' = draws ?s1"
    and tr: "trace s' =
         trace ?s1 @ concat (map (\<lambda>k. graviton_events res k (particles ?s1) (objects ?s1 k)) gids)"
    and sc: "screen s' = screen ?s1 @ map (\<lambda>k. Graviton_draw k (objects ?s1 k)) gids"
    by blast
  have geq: "geom (particles ?s1) = geom ?ps" by simp
  have sv: "\<And>k. k \<in> set gids \<Longrightarrow>
      survives res (particles ?s1) (objects ?s1 k) = survives res ?ps (objects s k)"
    using notin survives_geom [OF geq] by auto
  have ev: "\<And>k. k \<in> set gids \<Longrightarrow>
      graviton_events res k (particles ?s1) (objects ?s1 k) = graviton_events res k ?ps (objects s k)"
    using notin graviton_events_geom [OF geq] by auto
  have c1: "graviton_phase res (gid # gids) s = Inr s'"
    using p r by simp
  have c2: "geom (particles s') = geom ?ps"
    using g geq by simp
  have "gravitons s' = filter (\<lambda>k. k \<in> set gids \<longrightarrow> survives res ?ps (objects s k)) (gravitons ?s1)"
    unfolding gr by (rule filter_cong [OF refl]) (use sv in blast)
  also have "\<dots> = filter (\<lambda>k. k \<in> set (gid # gids) \<longrightarrow> survives res ?ps (objects s k)) (gravitons s)"
  proof (cases "survives res ?ps (objects s gid)")
    case True
    then show ?thesis by (auto intro: filter_cong)
  next
    case False
    then show ?thesis
      using Cons.prems(3) by (auto simp: remove1_as_filter intro: filter_cong)
  qed
  finally have c3: "gravitons s' =
      filter (\<lambda>k. k \<in> set (gid # gids) \<longrightarrow> survives res ?ps (objects s k)) (gravitons s)" .
  have c4: "objects s' = (\<lambda>k. if k \<in> set (gid # gids) then moved res (objects s k) else objects s k)"
    unfolding ob using notin by (auto simp: fun_eq_iff)
  have c5: "next_id s' = next_id s" "draws s' = draws s"
    using ni dr by simp_all
  have "concat (map (\<lambda>k. graviton_events res k (particles ?s1) (objects ?s1 k)) gids) =
        concat (map (\<lambda>k. graviton_events res k ?ps (objects s k)) gids)"
    by (rule arg_cong [where f = concat], rule map_cong [OF refl]) (use ev in blast)
  then have c6: "trace s' =
      trace s @ concat (map (\<lambda>k. graviton_events res k ?ps (objects s k)) (gid # gids))"
    unfolding tr by simp
  have "map (\<lambda>k. Graviton_draw k (objects ?s1 k)) gids = map (\<lambda>k. Graviton_draw k (objects s k)) gids"
    by (rule map_cong [OF refl]) (use notin in auto)
  then have c7: "screen s' = screen s @ map (\<lambda>k. Graviton_draw k (objects s k)) (gid # gids)"
    unfolding sc by simp
  from c1 c2 c3 c4 c5 c6 c7 show ?case by blast
qed

section \<open>Frames and runs\<close>

lemma removals_Nil [simp]: "removals k [] = 0"
  by (simp add: removals_def)

lemma removals_append [simp]: "removals k (xs @ ys) = removals k xs + removals k ys"
  by (simp add: removals_def)

lemma removals_Cons: "removals k (e # es) = (if removal_of k e then 1 else 0) + removals k es"
  by (simp add: removals_def)

lemma removals_spawned [simp]: "removals k (map (\<lambda>j. Spawned j (f j)) js) = 0"
  by (induction js) (simp_all add: removals_Cons)

lemma first_hit_Nil [simp]: "first_hit ps g [] = None"
  by (simp add: first_hit_def)

lemma removals_collide_events:
  "removals k (collide_events gid ps g idxs) =
     (if k = gid \<and> first_hit ps g idxs \<noteq> None then 1 else 0)"
  by (induction idxs) (auto simp: collide_events_Cons first_hit_Cons removals_Cons)

lemma removals_graviton_events:
  "removals k (graviton_events res gid ps g0) =
     (if k = gid \<and> \<not> survives res ps g0 then 1 else 0)"
  by (auto simp: graviton_events_def survives_def removals_collide_events removals_Cons)

lemma removals_concat_events:
  assumes "distinct gids"
  shows "removals k (concat (map (\<lambda>j. graviton_events res j ps (objs j)) gids)) =
     (if k \<in> set gids \<and> \<not> survives res ps (objs k) then 1 else 0)"
  using assms
  by (induction gids) (auto simp: removals_graviton_events)

lemma particle_phase_well_formed:
  assumes "well_formed s"
  shows "well_formed (particle_phase rnd res s)"
  using assms
  by (auto simp: well_formed_def particle_phase_simps)

lemma particle_phase_screen_irrelevant:
  "particles (particle_phase rnd res (s\<lparr> screen := x \<rparr>)) = particles (particle_phase rnd res s)"
  "gravitons (particle_phase rnd res (s\<lparr> screen := x \<rparr>)) = gravitons (particle_phase rnd res s)"
  "objects (particle_phase rnd res (s\<lparr> screen := x \<rparr>)) = objects (particle_phase rnd res s)"
  "next_id (particle_phase rnd res (s\<lparr> screen := x \<rparr>)) = next_id (particle_phase rnd res s)"
  "draws (particle_phase rnd res (s\<lparr> screen := x \<rparr>)) = draws (particle_phase rnd res s)"
  "trace (particle_phase rnd res (s\<lparr> screen := x \<rparr>)) = trace (particle_phase rnd res s)"
  "screen (particle_phase rnd res (s\<lparr> screen := x \<rparr>)) =
     x @ map (\<lambda>i. Particle_draw i (particles s ! i)) [0..<length (particles s)]"
proof -
  show "particles (particle_phase rnd res (s\<lparr> screen := x \<rparr>)) = particles (particle_phase rnd res s)"
    by (rule nth_equalityI) (simp_all add: particle_phase_simps particle_phase_particles)
  show "objects (particle_phase rnd res (s\<lparr> screen := x \<rparr>)) = objects (particle_phase rnd res s)"
    by (rule ext) (simp add: particle_phase_simps)
qed (simp_all add: particle_phase_simps particle_phase_screen)

lemma frame_result:
  fixes rnd :: "nat \<Rightarrow> real"
  assumes "well_formed s"
  defines "s1 \<equiv> particle_phase rnd SCREEN_RESOLUTION s"
  shows "\<exists>s'. frame rnd s = Inr s'
     \<and> geom (particles s') = geom (particles s1)
     \<and> gravitons s' =
         filter (\<lambda>k. survives SCREEN_RESOLUTION (particles s1) (objects s1 k)) (gravitons s1)
     \<and> objects s' = (\<lambda>k. if k \<in> set (gravitons s1) then moved SCREEN_RESOLUTION (objects s1 k)
                            else objects s1 k)
     \<and> next_id s' = next_id s1
     \<and> draws s' = draws s1
     \<and> trace s' =
         trace s1 @ concat (map (\<lambda>k. graviton_events SCREEN_RESOLUTION k (particles s1) (objects s1 k))
                              (gravitons s1))
     \<and> screen s' =
         screen s @ [Fill]
         @ map (\<lambda>i. Particle_draw i (particles s ! i)) [0..<length (particles s)]
         @ map (\<lambda>k. Graviton_draw k (objects s1 k)) (gravitons s1)
         @ [Flip]"
proof -
  define t1 where "t1 = particle_phase rnd SCREEN_RESOLUTION (s\<lparr> screen := screen s @ [Fill] \<rparr>)"
  have eq: "particles t1 = particles s1" "gravitons t1 = gravitons s1" "objects t1 = objects s1"
    "next_id t1 = next_id s1" "draws t1 = draws s1" "trace t1 = trace s1"
    and sc1: "screen t1 = screen s @ [Fill]
         @ map (\<lambda>i. Particle_draw i (particles s ! i)) [0..<length (particles s)]"
    by (simp_all add: t1_def s1_def particle_phase_screen_irrelevant)
  have wf1: "well_formed s1"
    unfolding s1_def using assms(1) by (rule particle_phase_well_formed)
  then have d: "distinct (gravitons t1)" by (simp add: well_formed_def eq)
  from graviton_phase_result [OF d subset_refl d, of SCREEN_RESOLUTION]
  obtain s2 where r: "graviton_phase SCREEN_RESOLUTION (gravitons t1) t1 = Inr s2"
     and rest: "geom (particles s2) = geom (particles s1)"
       "gravitons s2 = filter (\<lambda>k. k \<in> set (gravitons s1) \<longrightarrow>
            survives SCREEN_RESOLUTION (particles s1) (objects s1 k)) (gravitons s1)"
       "objects s2 = (\<lambda>k. if k \<in> set (gravitons s1) then moved SCREEN_RESOLUTION (objects s1 k)
                            else objects s1 k)"
       "next_id s2 = next_id s1" "draws s2 = draws s1"
       "trace s2 =
         trace s1 @ concat (map (\<lambda>k. graviton_events SCREEN_RESOLUTION k (particles s1) (objects s1 k))
                              (gravitons s1))"
       "screen s2 = screen t1 @ map (\<lambda>k. Graviton_draw k (objects s1 k)) (gravitons s1)"
    unfolding eq by blast
  define s' where "s' = s2\<lparr> screen := screen s2 @ [Flip] \<rparr>"
  have f: "frame rnd s = Inr s'"
    using r by (simp add: frame_def Let_def t1_def [symmetric] s'_def)
  have g: "gravitons s' =
         filter (\<lambda>k. survives SCREEN_RESOLUTION (particles s1) (objects s1 k)) (gravitons s1)"
    unfolding s'_def using rest(2) by (simp cong: filter_cong)
  have sc: "screen s' = screen s @ [Fill]
         @ map (\<lambda>i. Particle_draw i (particles s ! i)) [0..<length (particles s)]
         @ map (\<lambda>k. Graviton_draw k (objects s1 k)) (gravitons s1)
         @ [Flip]"
    by (simp add: s'_def rest(7) sc1)
  have others: "geom (particles s') = geom (particles s1)"
    "objects s' = (\<lambda>k. if k \<in> set (gravitons s1) then moved SCREEN_RESOLUTION (objects s1 k)
                            else objects s1 k)"
    "next_id s' = next_id s1" "draws s' = draws s1"
    "trace s' =
         trace s1 @ concat (map (\<lambda>k. graviton_events SCREEN_RESOLUTION k (particles s1) (objects s1 k))
                              (gravitons s1))"
    using rest by (simp_all add: s'_def)
  from f g sc others show ?thesis by blast
qed

lemma collide_events_mem:
  "e \<in> set (collide_events gid ps g idxs) \<Longrightarrow>
   \<exists>i. (e = Checked gid i \<or> e = Hit gid i (impulse g)) \<and> i \<noteq> g_creator g \<and> i \<in> set idxs"
  by (induction idxs) (auto simp: collide_events_Cons hits_def split: if_splits)

lemma moved_creator [simp]: "g_creator (moved res g) = g_creator g"
  by (simp add: moved_def Let_def Graviton_update_def)

lemma moved_life [simp]: "g_life (moved res g) = g_life g - 1"
  by (simp add: moved_def Let_def Graviton_update_def)

lemma graviton_events_mem:
  "e \<in> set (graviton_events res gid ps g0) \<Longrightarrow>
   event_gid e = gid \<and> (\<forall>objs. g_creator (objs gid) = g_creator g0 \<longrightarrow> creator_ok objs e)"
  by (auto simp: graviton_events_def dest!: collide_events_mem split: if_splits)

lemma survives_life: "survives res ps g \<Longrightarrow> 1 \<le> g_life g - 1"
  by (simp add: survives_def expired_def)

lemma new_graviton_fields [simp]:
  "g_creator (new_graviton rnd d i p) = i"
  "g_life (new_graviton rnd d i p) = GRAVITON_LIFE"
  "g_size (new_graviton rnd d i p) = GRAVITON_SIZE"
  "g_position (new_graviton rnd d i p) = p_position p"
  "g_forces (new_graviton rnd d i p) =
     (fst (p_forces p) + (rnd d - 1 / 2) * GRAVITON_FORCE_ADDITION_RANGE,
      snd (p_forces p) + (rnd (d + 1) - 1 / 2) * GRAVITON_FORCE_ADDITION_RANGE)"
  by (simp_all add: new_graviton_def Graviton_init_def split: prod.splits)

lemma creator_ok_cong:
  "g_creator (objs (event_gid e)) = g_creator (objs' (event_gid e)) \<Longrightarrow>
   creator_ok objs e = creator_ok objs' e"
  by (cases e) simp_all

lemma frame_run_inv:
  fixes rnd :: "nat \<Rightarrow> real"
  assumes "run_inv n s"
  shows "\<exists>s'. frame rnd s = Inr s' \<and> run_inv (Suc n) s'"
proof -
  let ?R = "SCREEN_RESOLUTION"
  define s1 where "s1 = particle_phase rnd ?R s"
  have len: "length (particles s) = PARTICLE_COUNT"
    and nid: "next_id s = n * per_frame"
    and wf: "well_formed s"
    and life: "\<And>k. k \<in> set (gravitons s) \<Longrightarrow>
           g_life (objects s k) = GRAVITON_LIFE - (int n - int (k div per_frame))"
    and rem: "\<And>k. removals k (trace s) = (if k < next_id s \<and> k \<notin> set (gravitons s) then 1 else 0)"
    and evs: "\<And>e. e \<in> set (trace s) \<Longrightarrow> event_gid e < next_id s \<and> creator_ok (objects s) e"
    using assms unfolding run_inv_def by blast+
  have old: "\<And>k. k \<in> set (gravitons s) \<Longrightarrow> k < next_id s"
    and dist: "distinct (gravitons s)"
    using wf by (simp_all add: well_formed_def)
  have N: "length (particles s) * GRAVITON_CREATION_COUNT = per_frame"
    by (simp add: len per_frame_def)
  have l1: "length (particles s1) = PARTICLE_COUNT"
    by (simp add: s1_def particle_phase_simps len)
  have g1: "gravitons s1 = gravitons s @ [next_id s ..< next_id s + per_frame]"
    by (simp add: s1_def particle_phase_simps N)
  have n1: "next_id s1 = next_id s + per_frame"
    by (simp add: s1_def particle_phase_simps N)
  have o1: "\<And>k. objects s1 k =
      (if next_id s \<le> k \<and> k < next_id s + per_frame
       then new_graviton rnd (draws s + 2 * (k - next_id s))
              ((k - next_id s) div GRAVITON_CREATION_COUNT)
              (Particle_update (particles s ! ((k - next_id s) div GRAVITON_CREATION_COUNT)) ?R)
       else objects s k)"
    by (simp add: s1_def particle_phase_simps N)
  have t1: "trace s1 = trace s @ map (\<lambda>k. Spawned k ((k - next_id s) div GRAVITON_CREATION_COUNT))
                                   [next_id s ..< next_id s + per_frame]"
    by (simp add: s1_def particle_phase_simps N)
  have d1: "distinct (gravitons s1)"
    using dist by (auto simp: g1 dest: old)
  from frame_result [OF wf, of rnd, folded s1_def]
  obtain s' where f: "frame rnd s = Inr s'"
    and ge: "geom (particles s') = geom (particles s1)"
    and gr: "gravitons s' = filter (\<lambda>k. survives ?R (particles s1) (objects s1 k)) (gravitons s1)"
    and ob: "objects s' = (\<lambda>k. if k \<in> set (gravitons s1) then moved ?R (objects s1 k)
                            else objects s1 k)"
    and ni: "next_id s' = next_id s1"
    and tr: "trace s' = trace s1 @ concat (map (\<lambda>k. graviton_events ?R k (particles s1) (objects s1 k))
                              (gravitons s1))"
    by blast
  have c1: "length (particles s') = PARTICLE_COUNT"
    using geom_length [OF ge] l1 by simp
  have c2: "next_id s' = Suc n * per_frame"
    using ni n1 nid by simp
  have c3: "well_formed s'"
    using d1 by (auto simp: well_formed_def gr g1 ni n1 dest: old)
  have cr: "\<And>k. g_creator (objects s' k) = g_creator (objects s1 k)"
    by (simp add: ob)
  have c4: "\<forall>k \<in> set (gravitons s').
           g_life (objects s' k) = GRAVITON_LIFE - (int (Suc n) - int (k div per_frame))
           \<and> 1 \<le> g_life (objects s' k)"
  proof
    fix k assume k: "k \<in> set (gravitons s')"
    then have k1: "k \<in> set (gravitons s1)"
      and sv: "survives ?R (particles s1) (objects s1 k)"
      by (simp_all add: gr)
    have l': "g_life (objects s' k) = g_life (objects s1 k) - 1"
      using k1 by (simp add: ob)
    have pos: "1 \<le> g_life (objects s' k)"
      using survives_life [OF sv] l' by simp
    have "g_life (objects s1 k) = GRAVITON_LIFE - (int n - int (k div per_frame))"
    proof (cases "k \<in> set (gravitons s)")
      case True
      then have "k < next_id s" by (rule old)
      then have "objects s1 k = objects s k" by (simp add: o1)
      then show ?thesis using life [OF True] by simp
    next
      case False
      then have r: "next_id s \<le> k" "k < next_id s + per_frame" using k1 by (auto simp: g1)
      then have "k div per_frame = n"
        using nid by (intro div_in_block) auto
      moreover have "g_life (objects s1 k) = GRAVITON_LIFE" using r by (simp add: o1)
      ultimately show ?thesis by simp
    qed
    with l' pos show "g_life (objects s' k) = GRAVITON_LIFE - (int (Suc n) - int (k div per_frame))
           \<and> 1 \<le> g_life (objects s' k)" by simp
  qed
  have c5: "\<forall>k. removals k (trace s') = (if k < next_id s' \<and> k \<notin> set (gravitons s') then 1 else 0)"
  proof
    fix k
    have "removals k (trace s') = removals k (trace s)
        + (if k \<in> set (gravitons s1) \<and> \<not> survives ?R (particles s1) (objects s1 k) then 1 else 0)"
      by (simp add: tr t1 removals_concat_events [OF d1])
    also have "\<dots> = (if k < next_id s' \<and> k \<notin> set (gravitons s') then 1 else 0)"
      by (auto simp: rem gr g1 ni n1 dest: old)
    finally show "removals k (trace s') = (if k < next_id s' \<and> k \<notin> set (gravitons s') then 1 else 0)" .
  qed
  have c6: "\<forall>e \<in> set (trace s'). event_gid e < next_id s' \<and> creator_ok (objects s') e"
  proof
    fix e assume "e \<in> set (trace s')"
    then consider (a) "e \<in> set (trace s)"
      | (b) k where "e = Spawned k ((k - next_id s) div GRAVITON_CREATION_COUNT)"
          "k < next_id s + per_frame"
      | (c) k where "k \<in> set (gravitons s1)"
          "e \<in> set (graviton_events ?R k (particles s1) (objects s1 k))"
      by (auto simp: tr t1)
    then show "event_gid e < next_id s' \<and> creator_ok (objects s') e"
    proof cases
      case a
      then have lt: "event_gid e < next_id s" and ok: "creator_ok (objects s) e"
        using evs by blast+
      have "g_creator (objects s' (event_gid e)) = g_creator (objects s (event_gid e))"
        using lt by (simp add: cr o1)
      then have "creator_ok (objects s') e = creator_ok (objects s) e"
        by (rule creator_ok_cong)
      with lt ok show ?thesis by (simp add: ni n1)
    next
      case b
      then show ?thesis by (simp add: ni n1)
    next
      case c
      have "k < next_id s1" using c(1) by (auto simp: g1 n1 dest: old)
      moreover have "event_gid e = k" and "creator_ok (objects s') e"
        using graviton_events_mem [OF c(2)] cr by blast+
      ultimately show ?thesis by (simp add: ni)
    qed
  qed
  from f c1 c2 c3 c4 c5 c6 show ?thesis
    unfolding run_inv_def by blast
qed

lemma main_init_run_inv: "run_inv 0 (main_init d)"
  by (simp add: run_inv_def main_init_def well_formed_def)

lemma frames_run_inv:
  fixes rnd :: "nat \<Rightarrow> real"
  assumes "run_inv m s"
  shows "\<exists>s'. frames rnd n s = Inr s' \<and> run_inv (m + n) s'"
  using assms
proof (induction n arbitrary: m s)
  case 0
  then show ?case by simp
next
  case (Suc n)
  from frame_run_inv [OF Suc.prems, of rnd] obtain s1 where
    f: "frame rnd s = Inr s1" and i: "run_inv (Suc m) s1" by blast
  from Suc.IH [OF i] f show ?case by simp
qed

lemma run_inv_lifetime:
  assumes "run_inv n s" and "k \<in> set (gravitons s)"
  shows "n < k div per_frame + nat GRAVITON_LIFE"
proof -
  have "g_life (objects s k) = GRAVITON_LIFE - (int n - int (k div per_frame))"
    and "1 \<le> g_life (objects s k)"
    using assms unfolding run_inv_def by blast+
  then show ?thesis by (simp add: GRAVITON_LIFE_def)
qed

lemma first_hit_upt:
  assumes "first_hit ps g [0..<n] = Some i"
  shows "i < n \<and> hits ps g i \<and> (\<forall>j < i. \<not> hits ps g j)"
proof -
  from assms obtain m where m: "m < length [0..<n]" "hits ps g ([0..<n] ! m)"
    "i = [0..<n] ! m" "\<forall>j < m. \<not> hits ps g ([0..<n] ! j)"
    unfolding first_hit_def find_Some_iff by blast
  then have "i = m" "m < n" by simp_all
  with m show ?thesis by auto
qed

lemma collide_events_checked_le:
  assumes "sorted idxs" and "first_hit ps g idxs = Some i"
    and "Checked gid j \<in> set (collide_events gid ps g idxs)"
  shows "j \<le> i"
  using assms
proof (induction idxs)
  case Nil
  then show ?case by simp
next
  case (Cons a rest)
  show ?case
  proof (cases "hits ps g a")
    case True
    then show ?thesis using Cons.prems by (simp add: first_hit_Cons collide_events_Cons)
  next
    case False
    then have fh: "first_hit ps g rest = Some i" using Cons.prems(2) by (simp add: first_hit_Cons)
    then have "i \<in> set rest" using first_hit_Some_in by blast
    then have "a \<le> i" using Cons.prems(1) by auto
    moreover have "sorted rest" using Cons.prems(1) by simp
    ultimately show ?thesis
      using Cons.IH fh Cons.prems(3) False
      by (auto simp: collide_events_Cons split: if_splits)
  qed
qed

section \<open>One iteration of the graviton loop\<close>

lemma hypot_less_iff: "hypot dx dy < r \<longleftrightarrow> 0 < r \<and> dx * dx + dy * dy < r * r"
proof -
  have nn: "0 \<le> dx * dx + dy * dy" by simp
  show ?thesis
  proof (cases "0 < r")
    case True
    then have "sqrt (dx * dx + dy * dy) < r \<longleftrightarrow> dx * dx + dy * dy < r\<^sup>2"
      using nn by (metis less_eq_real_def real_sqrt_less_iff real_sqrt_unique)
    then show ?thesis using True by (simp add: hypot_def power2_eq_square)
  next
    case False
    have "0 \<le> sqrt (dx * dx + dy * dy)" using nn by (rule real_sqrt_ge_zero)
    with False show ?thesis unfolding hypot_def by linarith
  qed
qed

lemma touches_iff [code]:
  "touches p g \<longleftrightarrow>
     0 < real_of_int (p_size p + g_size g)
     \<and> (fst (g_position g) - fst (p_position p)) * (fst (g_position g) - fst (p_position p))
       + (snd (g_position g) - snd (p_position p)) * (snd (g_position g) - snd (p_position p))
       < real_of_int (p_size p + g_size g) * real_of_int (p_size p + g_size g)"
  by (simp add: touches_def Let_def hypot_less_iff)

lemma moved_fields [simp]:
  "g_position (moved res g) =
     (fst (g_position g) + fst (g_forces g), snd (g_position g) + snd (g_forces g))"
  "g_forces (moved res g) = g_forces g"
  "g_size (moved res g) = g_size g"
  by (simp_all add: moved_def Let_def Graviton_update_def)

lemma collide_events_not_hit:
  "first_hit ps g idxs = None \<Longrightarrow> Hit gid i f \<notin> set (collide_events gid ps g idxs)"
  by (auto simp: collide_events_def)

lemma collide_events_hit_checked:
  "first_hit ps g idxs = Some i \<Longrightarrow> Checked gid i \<in> set (collide_events gid ps g idxs)"
  by (simp add: collide_events_def)

text \<open>
  Claim C5. In its iteration of the graviton loop a graviton is first moved by its
  forces and aged by one. It is then removed with no collision test made for it in that
  frame if and only if its life is now at most 0 or its position is strictly below 0 or
  strictly above the resolution on some axis; a position equal to 0 or to the resolution
  is kept. When it is removed this way, the removal is the only call made and no particle
  changes. A graviton at \<open>[0, 0]\<close> with forces \<open>[-1, -1]\<close> ends at \<open>[-1, -1]\<close> and is
  removed with no collision test.
\<close>

theorem expiry_removal:
  assumes "gid \<in> set (gravitons s)" and "distinct (gravitons s)"
  shows "\<exists>s'. process_graviton res gid s = Inr s' \<and>
     (let g = objects s gid;
          x = fst (g_position g) + fst (g_forces g);
          y = snd (g_position g) + snd (g_forces g);
          dead = (g_life g - 1 \<le> 0 \<or> x < 0 \<or> x > fst res \<or> y < 0 \<or> y > snd res);
          evs = drop (length (trace s)) (trace s')
      in g_position (objects s' gid) = (x, y)
         \<and> g_life (objects s' gid) = g_life g - 1
         \<and> (dead \<longleftrightarrow> gid \<notin> set (gravitons s') \<and> (\<forall>i. Checked gid i \<notin> set evs))
         \<and> (dead \<longrightarrow> evs = [Expired gid] \<and> particles s' = particles s)
         \<and> (g_position g = (0, 0) \<and> g_forces g = (- 1, - 1) \<longrightarrow>
              g_position (objects s' gid) = (- 1, - 1) \<and> gid \<notin> set (gravitons s')
              \<and> evs = [Expired gid] \<and> particles s' = particles s))"
proof -
  let ?g = "objects s gid"
  let ?m = "moved res ?g"
  let ?ps = "particles s"
  let ?x = "fst (g_position ?g) + fst (g_forces ?g)"
  let ?y = "snd (g_position ?g) + snd (g_forces ?g)"
  define dead where "dead \<longleftrightarrow> g_life ?g - 1 \<le> 0 \<or> ?x < 0 \<or> ?x > fst res \<or> ?y < 0 \<or> ?y > snd res"
  from process_graviton_result [OF assms(1), of res]
  obtain s' where p: "process_graviton res gid s = Inr s'"
    and ps': "particles s' = particles_after res ?ps ?g"
    and gs': "gravitons s' = (if survives res ?ps ?g then gravitons s else remove1 gid (gravitons s))"
    and os': "objects s' = (objects s)(gid := ?m)"
    and ts': "trace s' = trace s @ graviton_events res gid ?ps ?g"
    by simp
  define evs where "evs = drop (length (trace s)) (trace s')"
  have dr: "evs = graviton_events res gid ?ps ?g"
    by (simp add: ts' evs_def)
  have ex: "expired res ?m \<longleftrightarrow> dead"
    by (simp add: expired_def dead_def)
  have c1: "g_position (objects s' gid) = (?x, ?y)"
    by (simp add: os')
  have c2: "g_life (objects s' gid) = g_life ?g - 1"
    by (simp add: os')
  have c4: "dead \<longrightarrow> evs = [Expired gid] \<and> particles s' = particles s"
    unfolding ex [symmetric] dr ps'
    by (simp add: graviton_events_def particles_after_def)
  have gone: "dead \<longrightarrow> gid \<notin> set (gravitons s')"
    unfolding ex [symmetric] gs' using assms(2) by (simp add: survives_def)
  have alive: "\<not> dead \<longrightarrow> gid \<in> set (gravitons s') \<or> (\<exists>i. Checked gid i \<in> set evs)"
  proof (cases "first_hit ?ps ?m [0..<length ?ps]")
    case None
    then have "\<not> expired res ?m \<longrightarrow> survives res ?ps ?g" by (simp add: survives_def)
    then show ?thesis unfolding ex [symmetric] gs' using assms(1) by simp
  next
    case (Some i)
    then show ?thesis
      unfolding ex [symmetric] dr
      using collide_events_hit_checked [OF Some, of gid] by (auto simp: graviton_events_def)
  qed
  have c3: "dead \<longleftrightarrow> gid \<notin> set (gravitons s') \<and> (\<forall>i. Checked gid i \<notin> set evs)"
  proof (cases dead)
    case True
    with gone c4 show ?thesis by simp
  next
    case False
    with alive show ?thesis by blast
  qed
  have sc: "g_position ?g = (0, 0) \<and> g_forces ?g = (- 1, - 1) \<longrightarrow> dead"
    by (simp add: dead_def)
  have c5: "g_position ?g = (0, 0) \<and> g_forces ?g = (- 1, - 1) \<longrightarrow>
              g_position (objects s' gid) = (- 1, - 1) \<and> gid \<notin> set (gravitons s')
              \<and> evs = [Expired gid] \<and> particles s' = particles s"
  proof
    assume a: "g_position ?g = (0, 0) \<and> g_forces ?g = (- 1, - 1)"
    with sc have d: dead by blast
    have "g_position (objects s' gid) = (- 1, - 1)" using a c1 by simp
    with d gone c4 show "g_position (objects s' gid) = (- 1, - 1) \<and> gid \<notin> set (gravitons s')
              \<and> evs = [Expired gid] \<and> particles s' = particles s" by blast
  qed
  show ?thesis
    unfolding Let_def
    by (intro exI [of _ s'] conjI) (fact p c1 c2 c3 [unfolded dead_def evs_def]
        c4 [unfolded dead_def evs_def] c5 [unfolded evs_def])+
qed

theorem expiry_removal_witness:
  "\<exists>s'. process_graviton SCREEN_RESOLUTION 0
          (example_sim [example_particle (350, 350) (0, 0), example_particle (5, 5) (0, 0)]
             (example_graviton 0 (0, 0) (- 1, - 1) 50)) = Inr s'
     \<and> g_position (objects s' 0) = (- 1, - 1)
     \<and> g_life (objects s' 0) = 49
     \<and> 0 \<notin> set (gravitons s')
     \<and> trace s' = [Expired 0]
     \<and> particles s' = [example_particle (350, 350) (0, 0), example_particle (5, 5) (0, 0)]"
proof -
  let ?s = "example_sim [example_particle (350, 350) (0, 0), example_particle (5, 5) (0, 0)]
             (example_graviton 0 (0, 0) (- 1, - 1) 50)"
  have h1: "0 \<in> set (gravitons ?s)" and h2: "distinct (gravitons ?s)"
    by (simp_all add: example_sim_def)
  from expiry_removal [OF h1 h2, of SCREEN_RESOLUTION, unfolded Let_def]
  obtain s' where p: "process_graviton SCREEN_RESOLUTION 0 ?s = Inr s'"
    and l: "g_life (objects s' 0) = g_life (objects ?s 0) - 1"
    and c: "g_position (objects ?s 0) = (0, 0) \<and> g_forces (objects ?s 0) = (- 1, - 1) \<longrightarrow>
              g_position (objects s' 0) = (- 1, - 1) \<and> 0 \<notin> set (gravitons s')
              \<and> drop (length (trace ?s)) (trace s') = [Expired 0] \<and> particles s' = particles ?s"
    by blast
  have "g_position (objects ?s 0) = (0, 0) \<and> g_forces (objects ?s 0) = (- 1, - 1)"
    by (simp add: example_sim_def example_graviton_def)
  with c have "g_position (objects s' 0) = (- 1, - 1) \<and> 0 \<notin> set (gravitons s')
              \<and> drop (length (trace ?s)) (trace s') = [Expired 0] \<and> particles s' = particles ?s"
    by blast
  with p l show ?thesis
    by (intro exI [of _ s']) (simp add: example_sim_def example_graviton_def)
qed

lemma particles_after_creator:
  "particles_after res ps g0 ! g_creator g0 = ps ! g_creator g0"
proof (cases "expired res (moved res g0)")
  case True
  then show ?thesis by (simp add: particles_after_def)
next
  case False
  show ?thesis
  proof (cases "first_hit ps (moved res g0) [0..<length ps]")
    case None
    then show ?thesis using False by (simp add: particles_after_def)
  next
    case (Some i)
    from first_hit_Some_in [OF Some] have "i \<noteq> g_creator g0" by (simp add: hits_def)
    then show ?thesis using False Some by (simp add: particles_after_def)
  qed
qed

lemma first_hit_None_upt:
  "(\<forall>i < n. i \<noteq> g_creator g \<longrightarrow> \<not> touches (ps ! i) g) \<Longrightarrow> first_hit ps g [0..<n] = None"
  by (auto simp: first_hit_def find_None_iff hits_def)

lemma first_hit_None_iff:
  "first_hit ps g [0..<n] = None \<longleftrightarrow> (\<forall>i < n. i \<noteq> g_creator g \<longrightarrow> \<not> touches (ps ! i) g)"
  by (auto simp: first_hit_def find_None_iff hits_def)

lemma collide_events_hit_in:
  "first_hit ps g idxs = Some i \<Longrightarrow> Hit gid i (impulse g) \<in> set (collide_events gid ps g idxs)"
  by (simp add: collide_events_def)

lemma identity_example:
  "process_graviton SCREEN_RESOLUTION 0
     (example_sim [example_particle (350, 350) (0, 0), example_particle (350, 350) (0, 0)]
        (example_graviton 0 (350, 350) (1, 0) 50)) =
   Inr \<lparr> particles = [example_particle (350, 350) (0, 0), example_particle (350, 350) (- (1 / 100), 0)],
         gravitons = [],
         objects = (\<lambda>_. example_graviton 0 (350, 350) (1, 0) 50)
                     (0 := example_graviton 0 (351, 350) (1, 0) 49),
         next_id = 1, draws = 0,
         screen = [Draw_graviton 0 (50, 50, 50) (350, 350) 1],
         trace = [Checked 0 1, Hit 0 1 (- (1 / 100), 0)] \<rparr>"
  by (simp add: process_graviton_def example_sim_def example_graviton_def example_particle_def
      Let_def moved_def Graviton_update_def expired_def SCREEN_RESOLUTION_def touches_iff
      impulse_def GRAVITON_FORCE_APPLY_MULTIPLIER_def GRAVITON_SIZE_def PARTICLE_SIZE_def
      Particle_apply_force_def apply_force_axis_def remove_graviton_def Graviton_draw_def
      py_int_def)

lemma run_creator_ok:
  fixes rnd :: "nat \<Rightarrow> real"
  shows "\<exists>s. frames rnd n (main_init d) = Inr s
     \<and> (\<forall>k i f. Checked k i \<in> set (trace s) \<or> Hit k i f \<in> set (trace s) \<longrightarrow>
           i \<noteq> g_creator (objects s k))"
proof -
  from frames_run_inv [OF main_init_run_inv, of rnd n d]
  obtain s where f: "frames rnd n (main_init d) = Inr s" and i: "run_inv n s" by auto
  from i have ok: "\<And>e. e \<in> set (trace s) \<Longrightarrow> creator_ok (objects s) e"
    unfolding run_inv_def by blast
  have "\<forall>k i f. Checked k i \<in> set (trace s) \<or> Hit k i f \<in> set (trace s) \<longrightarrow>
           i \<noteq> g_creator (objects s k)"
  proof (intro allI impI)
    fix k i f
    assume "Checked k i \<in> set (trace s) \<or> Hit k i f \<in> set (trace s)"
    then show "i \<noteq> g_creator (objects s k)"
      using ok [of "Checked k i"] ok [of "Hit k i f"] by auto
  qed
  with f show ?thesis by blast
qed

text \<open>
  Claim C6. A graviton never collides with its creator. In one iteration of the
  graviton loop no distance test and no \<open>apply_force\<close> call is made on the creator of
  the graviton, the creator is left as it was, and a graviton that touches no particle
  other than its creator (whatever its position relative to the creator) stays in the
  list; in every run of \<open>main\<close>, every test and every strike recorded is on a particle
  other than the creator. The exclusion is by identity: a second particle equal in value
  to the creator is struck.
\<close>

theorem creator_never_struck:
  fixes rnd :: "nat \<Rightarrow> real"
  shows "(gid \<in> set (gravitons s) \<longrightarrow>
      (\<exists>s'. process_graviton res gid s = Inr s' \<and>
         (let c = g_creator (objects s gid);
              evs = drop (length (trace s)) (trace s')
          in (\<forall>i f. Checked gid i \<in> set evs \<or> Hit gid i f \<in> set evs \<longrightarrow> i \<noteq> c)
             \<and> particles s' ! c = particles s ! c
             \<and> ((\<forall>i < length (particles s). i \<noteq> c \<longrightarrow>
                    \<not> touches (particles s ! i) (moved res (objects s gid)))
                 \<and> \<not> expired res (moved res (objects s gid)) \<longrightarrow>
                 gravitons s' = gravitons s \<and> particles s' = particles s))))
   \<and> (\<exists>s. frames rnd n (main_init d) = Inr s
        \<and> (\<forall>k i f. Checked k i \<in> set (trace s) \<or> Hit k i f \<in> set (trace s) \<longrightarrow>
              i \<noteq> g_creator (objects s k)))
   \<and> (\<exists>s'. process_graviton SCREEN_RESOLUTION 0
              (example_sim [example_particle (350, 350) (0, 0), example_particle (350, 350) (0, 0)]
                 (example_graviton 0 (350, 350) (1, 0) 50)) = Inr s'
        \<and> particles s' =
            [example_particle (350, 350) (0, 0), example_particle (350, 350) (- (1 / 100), 0)]
        \<and> gravitons s' = []
        \<and> trace s' = [Checked 0 1, Hit 0 1 (- (1 / 100), 0)])"
proof (intro conjI impI)
  assume gin: "gid \<in> set (gravitons s)"
  let ?g = "objects s gid"
  let ?m = "moved res ?g"
  let ?ps = "particles s"
  from process_graviton_result [OF gin, of res]
  obtain s' where p: "process_graviton res gid s = Inr s'"
    and ps': "particles s' = particles_after res ?ps ?g"
    and gs': "gravitons s' = (if survives res ?ps ?g then gravitons s else remove1 gid (gravitons s))"
    and ts': "trace s' = trace s @ graviton_events res gid ?ps ?g"
    by simp
  have dr: "drop (length (trace s)) (trace s') = graviton_events res gid ?ps ?g"
    by (simp add: ts')
  have a: "\<forall>i f. Checked gid i \<in> set (drop (length (trace s)) (trace s'))
               \<or> Hit gid i f \<in> set (drop (length (trace s)) (trace s')) \<longrightarrow> i \<noteq> g_creator ?g"
  proof (intro allI impI)
    fix i f
    assume "Checked gid i \<in> set (drop (length (trace s)) (trace s'))
               \<or> Hit gid i f \<in> set (drop (length (trace s)) (trace s'))"
    then have "creator_ok (objects s) (Checked gid i) \<or> creator_ok (objects s) (Hit gid i f)"
      unfolding dr using graviton_events_mem [of _ res gid ?ps ?g] by blast
    then show "i \<noteq> g_creator ?g" by auto
  qed
  have b: "particles s' ! g_creator ?g = particles s ! g_creator ?g"
    by (simp add: ps' particles_after_creator)
  have c: "(\<forall>i < length ?ps. i \<noteq> g_creator ?g \<longrightarrow> \<not> touches (?ps ! i) ?m)
                 \<and> \<not> expired res ?m \<longrightarrow>
                 gravitons s' = gravitons s \<and> particles s' = particles s"
  proof
    assume h: "(\<forall>i < length ?ps. i \<noteq> g_creator ?g \<longrightarrow> \<not> touches (?ps ! i) ?m)
                 \<and> \<not> expired res ?m"
    then have "first_hit ?ps ?m [0..<length ?ps] = None"
      by (intro first_hit_None_upt) simp
    with h show "gravitons s' = gravitons s \<and> particles s' = particles s"
      by (simp add: gs' ps' survives_def particles_after_def)
  qed
  show "\<exists>s'. process_graviton res gid s = Inr s' \<and>
         (let c = g_creator (objects s gid);
              evs = drop (length (trace s)) (trace s')
          in (\<forall>i f. Checked gid i \<in> set evs \<or> Hit gid i f \<in> set evs \<longrightarrow> i \<noteq> c)
             \<and> particles s' ! c = particles s ! c
             \<and> ((\<forall>i < length (particles s). i \<noteq> c \<longrightarrow>
                    \<not> touches (particles s ! i) (moved res (objects s gid)))
                 \<and> \<not> expired res (moved res (objects s gid)) \<longrightarrow>
                 gravitons s' = gravitons s \<and> particles s' = particles s))"
    unfolding Let_def
    by (intro exI [of _ s'] conjI) (fact p a b c)+
next
  show "\<exists>s. frames rnd n (main_init d) = Inr s
        \<and> (\<forall>k i f. Checked k i \<in> set (trace s) \<or> Hit k i f \<in> set (trace s) \<longrightarrow>
              i \<noteq> g_creator (objects s k))"
    by (rule run_creator_ok)
next
  show "\<exists>s'. process_graviton SCREEN_RESOLUTION 0
              (example_sim [example_particle (350, 350) (0, 0), example_particle (350, 350) (0, 0)]
                 (example_graviton 0 (350, 350) (1, 0) 50)) = Inr s'
        \<and> particles s' =
            [example_particle (350, 350) (0, 0), example_particle (350, 350) (- (1 / 100), 0)]
        \<and> gravitons s' = []
        \<and> trace s' = [Checked 0 1, Hit 0 1 (- (1 / 100), 0)]"
    unfolding identity_example by simp
qed

theorem creator_never_struck_witness:
  "\<exists>s'. process_graviton SCREEN_RESOLUTION 0
          (example_sim [example_particle (350, 350) (0, 0), example_particle (100, 100) (0, 0)]
             (example_graviton 0 (350, 350) (0, 0) 50)) = Inr s'
     \<and> gravitons s' = [0]
     \<and> particles s' = [example_particle (350, 350) (0, 0), example_particle (100, 100) (0, 0)]"
proof -
  let ?s = "example_sim [example_particle (350, 350) (0, 0), example_particle (100, 100) (0, 0)]
             (example_graviton 0 (350, 350) (0, 0) 50)"
  have h1: "0 \<in> set (gravitons ?s)"
    by (simp add: example_sim_def)
  have h2: "(\<forall>i < length (particles ?s). i \<noteq> g_creator (objects ?s 0) \<longrightarrow>
                \<not> touches (particles ?s ! i) (moved SCREEN_RESOLUTION (objects ?s 0)))
            \<and> \<not> expired SCREEN_RESOLUTION (moved SCREEN_RESOLUTION (objects ?s 0))"
    by (simp add: example_sim_def example_graviton_def example_particle_def touches_iff
        expired_def SCREEN_RESOLUTION_def less_Suc_eq GRAVITON_SIZE_def PARTICLE_SIZE_def)
  from creator_never_struck [of 0 ?s SCREEN_RESOLUTION "\<lambda>_. 0" 0 "\<lambda>_. (0, 0, 0, 0, 0)", unfolded Let_def] h1
  obtain s' where p: "process_graviton SCREEN_RESOLUTION 0 ?s = Inr s'"
    and c: "(\<forall>i < length (particles ?s). i \<noteq> g_creator (objects ?s 0) \<longrightarrow>
                \<not> touches (particles ?s ! i) (moved SCREEN_RESOLUTION (objects ?s 0)))
            \<and> \<not> expired SCREEN_RESOLUTION (moved SCREEN_RESOLUTION (objects ?s 0)) \<longrightarrow>
            gravitons s' = gravitons ?s \<and> particles s' = particles ?s"
    by blast
  from c h2 have "gravitons s' = gravitons ?s \<and> particles s' = particles ?s" by blast
  with p show ?thesis
    by (intro exI [of _ s']) (simp add: example_sim_def)
qed

section \<open>The lifecycle of a graviton\<close>

lemma collide_events_hit:
  "Hit gid i f \<in> set (collide_events gid ps g idxs) \<Longrightarrow>
   first_hit ps g idxs = Some i \<and> f = impulse g"
  by (auto simp: collide_events_def split: option.splits)

lemma collide_events_no_expired:
  "Expired k \<notin> set (collide_events gid ps g idxs)"
  by (auto simp: collide_events_def split: option.splits)

lemma run_lifecycle:
  fixes rnd :: "nat \<Rightarrow> real"
  shows "\<exists>s. frames rnd n (main_init d) = Inr s
     \<and> next_id s = n * per_frame
     \<and> distinct (gravitons s)
     \<and> (\<forall>k. removals k (trace s) = (if k < next_id s \<and> k \<notin> set (gravitons s) then 1 else 0))
     \<and> (\<forall>k \<in> set (gravitons s). k < next_id s \<and> n < k div per_frame + nat GRAVITON_LIFE)"
proof -
  from frames_run_inv [OF main_init_run_inv, of rnd n d]
  obtain s where f: "frames rnd n (main_init d) = Inr s" and i: "run_inv n s" by auto
  have a: "next_id s = n * per_frame" and b: "distinct (gravitons s)"
    and c: "\<forall>k. removals k (trace s) = (if k < next_id s \<and> k \<notin> set (gravitons s) then 1 else 0)"
    and d: "\<forall>k \<in> set (gravitons s). k < next_id s"
    using i unfolding run_inv_def well_formed_def by blast+
  have e: "\<forall>k \<in> set (gravitons s). n < k div per_frame + nat GRAVITON_LIFE"
    using run_inv_lifetime [OF i] by blast
  from f a b c d e show ?thesis by blast
qed

lemma iteration_lifecycle:
  assumes gin: "gid \<in> set (gravitons s)" and dist: "distinct (gravitons s)"
  shows "\<exists>s'. process_graviton res gid s = Inr s'
     \<and> removals gid (drop (length (trace s)) (trace s')) = (if gid \<in> set (gravitons s') then 0 else 1)
     \<and> (\<forall>i f. Hit gid i f \<in> set (drop (length (trace s)) (trace s')) \<longrightarrow>
           i < length (particles s)
           \<and> i \<noteq> g_creator (objects s gid)
           \<and> touches (particles s ! i) (moved res (objects s gid))
           \<and> (\<forall>j < i. j \<noteq> g_creator (objects s gid) \<longrightarrow>
                 \<not> touches (particles s ! j) (moved res (objects s gid)))
           \<and> f = (fst (g_forces (objects s gid)) * GRAVITON_FORCE_APPLY_MULTIPLIER,
                  snd (g_forces (objects s gid)) * GRAVITON_FORCE_APPLY_MULTIPLIER)
           \<and> particles s' = (particles s)[i := Particle_apply_force (particles s ! i) f res]
           \<and> (\<forall>j. Checked gid j \<in> set (drop (length (trace s)) (trace s')) \<longrightarrow> j \<le> i)
           \<and> gid \<notin> set (gravitons s')
           \<and> Expired gid \<notin> set (drop (length (trace s)) (trace s')))
     \<and> (\<not> expired res (moved res (objects s gid))
         \<and> (\<exists>i < length (particles s). i \<noteq> g_creator (objects s gid)
               \<and> touches (particles s ! i) (moved res (objects s gid))) \<longrightarrow>
         (\<exists>i f. Hit gid i f \<in> set (drop (length (trace s)) (trace s'))))
     \<and> (expired res (moved res (objects s gid)) \<longrightarrow>
         drop (length (trace s)) (trace s') = [Expired gid]
         \<and> gid \<notin> set (gravitons s') \<and> particles s' = particles s)
     \<and> (\<not> expired res (moved res (objects s gid))
         \<and> (\<forall>i < length (particles s). i \<noteq> g_creator (objects s gid) \<longrightarrow>
               \<not> touches (particles s ! i) (moved res (objects s gid))) \<longrightarrow>
         gravitons s' = gravitons s \<and> particles s' = particles s
         \<and> (\<forall>i f. Hit gid i f \<notin> set (drop (length (trace s)) (trace s')))
         \<and> Expired gid \<notin> set (drop (length (trace s)) (trace s')))
     \<and> objects s' = (objects s)(gid := moved res (objects s gid))"
proof -
  let ?g = "objects s gid"
  let ?m = "moved res ?g"
  let ?ps = "particles s"
  from process_graviton_result [OF gin, of res]
  obtain s' where p: "process_graviton res gid s = Inr s'"
    and ps': "particles s' = particles_after res ?ps ?g"
    and gs': "gravitons s' = (if survives res ?ps ?g then gravitons s else remove1 gid (gravitons s))"
    and ts': "trace s' = trace s @ graviton_events res gid ?ps ?g"
    and os': "objects s' = (objects s)(gid := ?m)"
    by simp
  define evs where "evs = drop (length (trace s)) (trace s')"
  have dr: "evs = graviton_events res gid ?ps ?g"
    by (simp add: ts' evs_def)
  have mem: "gid \<in> set (gravitons s') \<longleftrightarrow> survives res ?ps ?g"
    using gin dist by (simp add: gs')
  have a: "removals gid evs = (if gid \<in> set (gravitons s') then 0 else 1)"
    by (simp add: dr removals_graviton_events mem)
  have b: "\<forall>i f. Hit gid i f \<in> set evs \<longrightarrow>
           i < length ?ps
           \<and> i \<noteq> g_creator ?g
           \<and> touches (?ps ! i) ?m
           \<and> (\<forall>j < i. j \<noteq> g_creator ?g \<longrightarrow> \<not> touches (?ps ! j) ?m)
           \<and> f = (fst (g_forces ?g) * GRAVITON_FORCE_APPLY_MULTIPLIER,
                  snd (g_forces ?g) * GRAVITON_FORCE_APPLY_MULTIPLIER)
           \<and> particles s' = ?ps[i := Particle_apply_force (?ps ! i) f res]
           \<and> (\<forall>j. Checked gid j \<in> set evs \<longrightarrow> j \<le> i)
           \<and> gid \<notin> set (gravitons s')
           \<and> Expired gid \<notin> set evs"
  proof (intro allI impI)
    fix i f
    assume h: "Hit gid i f \<in> set evs"
    have ne: "\<not> expired res ?m"
      using h by (auto simp: dr graviton_events_def split: if_splits)
    then have ev: "evs = collide_events gid ?ps ?m [0..<length ?ps]"
      by (simp add: dr graviton_events_def)
    from h have fh: "first_hit ?ps ?m [0..<length ?ps] = Some i" and f: "f = impulse ?m"
      unfolding ev using collide_events_hit by blast+
    from first_hit_upt [OF fh] have i: "i < length ?ps" and hi: "hits ?ps ?m i"
      and lo: "\<forall>j < i. \<not> hits ?ps ?m j" by blast+
    have 1: "i \<noteq> g_creator ?g" and 2: "touches (?ps ! i) ?m"
      using hi by (simp_all add: hits_def)
    have 3: "\<forall>j < i. j \<noteq> g_creator ?g \<longrightarrow> \<not> touches (?ps ! j) ?m"
      using lo by (auto simp: hits_def)
    have 4: "f = (fst (g_forces ?g) * GRAVITON_FORCE_APPLY_MULTIPLIER,
                  snd (g_forces ?g) * GRAVITON_FORCE_APPLY_MULTIPLIER)"
      by (simp add: f impulse_def)
    have 5: "particles s' = ?ps[i := Particle_apply_force (?ps ! i) f res]"
      using ne fh by (simp add: ps' particles_after_def f)
    have 6: "\<forall>j. Checked gid j \<in> set evs \<longrightarrow> j \<le> i"
      unfolding ev using collide_events_checked_le [OF _ fh] by simp
    have "\<not> survives res ?ps ?g" using fh by (simp add: survives_def)
    then have 7: "gid \<notin> set (gravitons s')" using mem by simp
    have 8: "Expired gid \<notin> set evs"
      unfolding ev by (rule collide_events_no_expired)
    from i 1 2 3 4 5 6 7 8 show "i < length ?ps
           \<and> i \<noteq> g_creator ?g
           \<and> touches (?ps ! i) ?m
           \<and> (\<forall>j < i. j \<noteq> g_creator ?g \<longrightarrow> \<not> touches (?ps ! j) ?m)
           \<and> f = (fst (g_forces ?g) * GRAVITON_FORCE_APPLY_MULTIPLIER,
                  snd (g_forces ?g) * GRAVITON_FORCE_APPLY_MULTIPLIER)
           \<and> particles s' = ?ps[i := Particle_apply_force (?ps ! i) f res]
           \<and> (\<forall>j. Checked gid j \<in> set evs \<longrightarrow> j \<le> i)
           \<and> gid \<notin> set (gravitons s')
           \<and> Expired gid \<notin> set evs" by blast
  qed
  have c: "\<not> expired res ?m
         \<and> (\<exists>i < length ?ps. i \<noteq> g_creator ?g \<and> touches (?ps ! i) ?m) \<longrightarrow>
         (\<exists>i f. Hit gid i f \<in> set evs)"
  proof
    assume h: "\<not> expired res ?m
         \<and> (\<exists>i < length ?ps. i \<noteq> g_creator ?g \<and> touches (?ps ! i) ?m)"
    then have "first_hit ?ps ?m [0..<length ?ps] \<noteq> None"
      unfolding first_hit_None_iff by auto
    then obtain i where fh: "first_hit ?ps ?m [0..<length ?ps] = Some i" by blast
    have "Hit gid i (impulse ?m) \<in> set evs"
      using h collide_events_hit_in [OF fh, of gid] by (simp add: dr graviton_events_def)
    then show "\<exists>i f. Hit gid i f \<in> set evs" by blast
  qed
  have d: "expired res ?m \<longrightarrow>
         evs = [Expired gid] \<and> gid \<notin> set (gravitons s') \<and> particles s' = particles s"
    using mem by (simp add: dr graviton_events_def survives_def ps' particles_after_def)
  have e: "\<not> expired res ?m
         \<and> (\<forall>i < length ?ps. i \<noteq> g_creator ?g \<longrightarrow> \<not> touches (?ps ! i) ?m) \<longrightarrow>
         gravitons s' = gravitons s \<and> particles s' = particles s
         \<and> (\<forall>i f. Hit gid i f \<notin> set evs)
         \<and> Expired gid \<notin> set evs"
  proof
    assume h: "\<not> expired res ?m
         \<and> (\<forall>i < length ?ps. i \<noteq> g_creator ?g \<longrightarrow> \<not> touches (?ps ! i) ?m)"
    then have fh: "first_hit ?ps ?m [0..<length ?ps] = None"
      unfolding first_hit_None_iff by simp
    have ev: "evs = collide_events gid ?ps ?m [0..<length ?ps]"
      using h by (simp add: dr graviton_events_def)
    have 1: "gravitons s' = gravitons s \<and> particles s' = particles s"
      using h fh by (simp add: gs' ps' survives_def particles_after_def)
    have 2: "\<forall>i f. Hit gid i f \<notin> set evs"
      unfolding ev using collide_events_not_hit [OF fh] by blast
    have 3: "Expired gid \<notin> set evs"
      unfolding ev by (rule collide_events_no_expired)
    from 1 2 3 show "gravitons s' = gravitons s \<and> particles s' = particles s
         \<and> (\<forall>i f. Hit gid i f \<notin> set evs)
         \<and> Expired gid \<notin> set evs" by blast
  qed
  show ?thesis
    by (intro exI [of _ s'] conjI)
      (fact p a [unfolded evs_def] b [unfolded evs_def] c [unfolded evs_def]
         d [unfolded evs_def] e [unfolded evs_def] os')+
qed

text \<open>
  Claim C4. In every run of \<open>main\<close> (identities below \<open>next_id\<close> are the gravitons
  spawned so far, those of the frame numbered \<open>c\<close> from 0 being the \<open>k\<close> with
  \<open>k div per_frame = c\<close>), each spawned graviton is either still in the list with no
  removal recorded, or out of the list with exactly one removal recorded, by expiry or
  by a hit; no removal ever raises; and a graviton in the list was spawned fewer than
  \<open>GRAVITON_LIFE\<close> frames before, the frame of its construction included. In one
  iteration of the graviton loop, a hit is on the first particle in list order that is
  not the creator and touches the graviton, the particle receives \<open>apply_force\<close> with
  the forces of the graviton times \<open>GRAVITON_FORCE_APPLY_MULTIPLIER\<close>, no particle after
  it is tested, the graviton leaves the list, and the expiry removal does not happen.
  The iteration moves and ages the graviton and then does exactly one of three things:
  if the expiry test fires, the expiry removal and nothing else; otherwise, if some
  particle other than the creator touches the graviton, a hit; otherwise nothing, and
  the graviton stays in the list.
\<close>

theorem graviton_lifecycle:
  fixes rnd :: "nat \<Rightarrow> real"
  shows "(\<exists>s. frames rnd n (main_init d) = Inr s
      \<and> next_id s = n * per_frame
      \<and> distinct (gravitons s)
      \<and> (\<forall>k. removals k (trace s) = (if k < next_id s \<and> k \<notin> set (gravitons s) then 1 else 0))
      \<and> (\<forall>k \<in> set (gravitons s). k < next_id s \<and> n < k div per_frame + nat GRAVITON_LIFE))
   \<and> (gid \<in> set (gravitons s0) \<and> distinct (gravitons s0) \<longrightarrow>
       (\<exists>s'. process_graviton res gid s0 = Inr s'
         \<and> removals gid (drop (length (trace s0)) (trace s')) =
             (if gid \<in> set (gravitons s') then 0 else 1)
         \<and> (\<forall>i f. Hit gid i f \<in> set (drop (length (trace s0)) (trace s')) \<longrightarrow>
               i < length (particles s0)
               \<and> i \<noteq> g_creator (objects s0 gid)
               \<and> touches (particles s0 ! i) (moved res (objects s0 gid))
               \<and> (\<forall>j < i. j \<noteq> g_creator (objects s0 gid) \<longrightarrow>
                     \<not> touches (particles s0 ! j) (moved res (objects s0 gid)))
               \<and> f = (fst (g_forces (objects s0 gid)) * GRAVITON_FORCE_APPLY_MULTIPLIER,
                      snd (g_forces (objects s0 gid)) * GRAVITON_FORCE_APPLY_MULTIPLIER)
               \<and> particles s' = (particles s0)[i := Particle_apply_force (particles s0 ! i) f res]
               \<and> (\<forall>j. Checked gid j \<in> set (drop (length (trace s0)) (trace s')) \<longrightarrow> j \<le> i)
               \<and> gid \<notin> set (gravitons s')
               \<and> Expired gid \<notin> set (drop (length (trace s0)) (trace s')))
     \<and> (\<not> expired res (moved res (objects s0 gid))
         \<and> (\<exists>i < length (particles s0). i \<noteq> g_creator (objects s0 gid)
               \<and> touches (particles s0 ! i) (moved res (objects s0 gid))) \<longrightarrow>
         (\<exists>i f. Hit gid i f \<in> set (drop (length (trace s0)) (trace s'))))
     \<and> (expired res (moved res (objects s0 gid)) \<longrightarrow>
         drop (length (trace s0)) (trace s') = [Expired gid]
         \<and> gid \<notin> set (gravitons s') \<and> particles s' = particles s0)
     \<and> (\<not> expired res (moved res (objects s0 gid))
         \<and> (\<forall>i < length (particles s0). i \<noteq> g_creator (objects s0 gid) \<longrightarrow>
               \<not> touches (particles s0 ! i) (moved res (objects s0 gid))) \<longrightarrow>
         gravitons s' = gravitons s0 \<and> particles s' = particles s0
         \<and> (\<forall>i f. Hit gid i f \<notin> set (drop (length (trace s0)) (trace s')))
         \<and> Expired gid \<notin> set (drop (length (trace s0)) (trace s')))
     \<and> objects s' = (objects s0)(gid := moved res (objects s0 gid))))"
  using run_lifecycle [of rnd n d] iteration_lifecycle [of gid s0 res] by blast

theorem graviton_lifecycle_witness:
  "(\<exists>s. frames (\<lambda>_. 0) 100 (main_init (\<lambda>_. (0, 0, 0, 0, 0))) = Inr s
      \<and> 0 \<notin> set (gravitons s) \<and> removals 0 (trace s) = 1)
   \<and> (\<exists>s'. process_graviton SCREEN_RESOLUTION 0
              (example_sim [example_particle (350, 350) (0, 0), example_particle (350, 350) (0, 0)]
                 (example_graviton 0 (350, 350) (1, 0) 50)) = Inr s'
        \<and> Hit 0 1 (- (1 / 100), 0) \<in> set (trace s')
        \<and> 0 \<notin> set (gravitons s')
        \<and> particles s' =
            [example_particle (350, 350) (0, 0),
             Particle_apply_force (example_particle (350, 350) (0, 0)) (- (1 / 100), 0)
               SCREEN_RESOLUTION])"
proof -
  let ?s0 = "example_sim [example_particle (350, 350) (0, 0), example_particle (350, 350) (0, 0)]
                 (example_graviton 0 (350, 350) (1, 0) 50)"
  have h: "0 \<in> set (gravitons ?s0) \<and> distinct (gravitons ?s0)"
    by (simp add: example_sim_def)
  note t = graviton_lifecycle [of "\<lambda>_. 0" 100 "\<lambda>_. (0, 0, 0, 0, 0)" 0 ?s0 SCREEN_RESOLUTION]
  from t obtain s where f: "frames (\<lambda>_. 0) 100 (main_init (\<lambda>_. (0, 0, 0, 0, 0))) = Inr s"
    and n: "next_id s = 100 * per_frame"
    and r: "\<forall>k. removals k (trace s) = (if k < next_id s \<and> k \<notin> set (gravitons s) then 1 else 0)"
    and l: "\<forall>k \<in> set (gravitons s). k < next_id s \<and> 100 < k div per_frame + nat GRAVITON_LIFE"
    by blast
  have out: "0 \<notin> set (gravitons s)"
    using l by (auto simp: GRAVITON_LIFE_def)
  have "0 < next_id s"
    by (simp add: n per_frame_def PARTICLE_COUNT_def GRAVITON_CREATION_COUNT_def)
  with r out have one: "removals 0 (trace s) = 1" by simp
  from t h obtain s' where p: "process_graviton SCREEN_RESOLUTION 0 ?s0 = Inr s'"
    and hit: "\<forall>i f. Hit 0 i f \<in> set (drop (length (trace ?s0)) (trace s')) \<longrightarrow>
               particles s' = (particles ?s0)[i := Particle_apply_force (particles ?s0 ! i) f
                                                     SCREEN_RESOLUTION]
               \<and> 0 \<notin> set (gravitons s')"
    by blast
  have tr: "trace s' = [Checked 0 1, Hit 0 1 (- (1 / 100), 0)]"
    using p unfolding identity_example by auto
  then have "Hit 0 1 (- (1 / 100), 0) \<in> set (drop (length (trace ?s0)) (trace s'))"
    by (simp add: example_sim_def)
  with hit have "particles s' = (particles ?s0)[1 := Particle_apply_force (particles ?s0 ! 1)
                                     (- (1 / 100), 0) SCREEN_RESOLUTION]
               \<and> 0 \<notin> set (gravitons s')"
    by blast
  with p tr have "\<exists>s'. process_graviton SCREEN_RESOLUTION 0 ?s0 = Inr s'
        \<and> Hit 0 1 (- (1 / 100), 0) \<in> set (trace s')
        \<and> 0 \<notin> set (gravitons s')
        \<and> particles s' =
            [example_particle (350, 350) (0, 0),
             Particle_apply_force (example_particle (350, 350) (0, 0)) (- (1 / 100), 0)
               SCREEN_RESOLUTION]"
    by (intro exI [of _ s']) (simp add: example_sim_def)
  with f out one show ?thesis by blast
qed

section \<open>The gravitons spawned in a frame\<close>

lemma touches_geom:
  "geom ps = geom ps' \<Longrightarrow> i < length ps \<Longrightarrow> touches (ps ! i) g = touches (ps' ! i) g"
  using geom_nth [of ps ps' i] by (simp add: touches_def)

lemma expired_moved:
  "expired res (moved res g) \<longleftrightarrow>
     g_life g - 1 \<le> 0
     \<or> fst (g_position g) + fst (g_forces g) < 0
     \<or> fst (g_position g) + fst (g_forces g) > fst res
     \<or> snd (g_position g) + snd (g_forces g) < 0
     \<or> snd (g_position g) + snd (g_forces g) > snd res"
  by (simp add: expired_def)

text \<open>
  Claim C10. The gravitons spawned in the particle loop of a frame take part in the
  graviton loop of the same frame: each of them is in the copy of the list that the
  graviton loop iterates over, is drawn (at the position it was spawned at, between the
  fill and the flip of the display of that frame), is moved once by its forces, has its
  life decremented from \<open>GRAVITON_LIFE\<close> to 99 before the frame ends, and stays in the
  list exactly when the expiry test does not fire for it and no particle other than its
  creator touches it.
\<close>

theorem spawned_gravitons_same_frame:
  fixes rnd :: "nat \<Rightarrow> real"
  assumes "well_formed s"
  shows "\<exists>s'. frame rnd s = Inr s'
     \<and> next_id s' = next_id s + length (particles s) * GRAVITON_CREATION_COUNT
     \<and> length (particles s') = length (particles s)
     \<and> (\<forall>k. next_id s \<le> k \<and> k < next_id s' \<longrightarrow>
           k \<notin> set (gravitons s)
           \<and> k \<in> set (gravitons (particle_phase rnd SCREEN_RESOLUTION s))
           \<and> g_life (objects (particle_phase rnd SCREEN_RESOLUTION s) k) = GRAVITON_LIFE
           \<and> g_life (objects s' k) = 99
           \<and> g_position (objects s' k) =
               (fst (g_position (objects (particle_phase rnd SCREEN_RESOLUTION s) k))
                  + fst (g_forces (objects (particle_phase rnd SCREEN_RESOLUTION s) k)),
                snd (g_position (objects (particle_phase rnd SCREEN_RESOLUTION s) k))
                  + snd (g_forces (objects (particle_phase rnd SCREEN_RESOLUTION s) k)))
           \<and> (k \<in> set (gravitons s') \<longleftrightarrow>
                \<not> expired SCREEN_RESOLUTION (objects s' k)
                \<and> (\<forall>i < length (particles s'). i \<noteq> g_creator (objects s' k) \<longrightarrow>
                      \<not> touches (particles s' ! i) (objects s' k)))
           \<and> Graviton_draw k (objects (particle_phase rnd SCREEN_RESOLUTION s) k)
               \<in> set (drop (length (screen s)) (screen s')))
     \<and> drop (length (screen s)) (screen s') =
         [Fill]
         @ map (\<lambda>i. Particle_draw i (particles s ! i)) [0..<length (particles s)]
         @ map (\<lambda>k. Graviton_draw k (objects (particle_phase rnd SCREEN_RESOLUTION s) k))
             (gravitons (particle_phase rnd SCREEN_RESOLUTION s))
         @ [Flip]"
proof -
  let ?R = "SCREEN_RESOLUTION"
  let ?N = "length (particles s) * GRAVITON_CREATION_COUNT"
  define s1 where "s1 = particle_phase rnd ?R s"
  have old: "\<And>k. k \<in> set (gravitons s) \<Longrightarrow> k < next_id s"
    using assms by (simp add: well_formed_def)
  have l1: "length (particles s1) = length (particles s)"
    by (simp add: s1_def particle_phase_simps)
  have g1: "gravitons s1 = gravitons s @ [next_id s ..< next_id s + ?N]"
    by (simp add: s1_def particle_phase_simps)
  have n1: "next_id s1 = next_id s + ?N"
    by (simp add: s1_def particle_phase_simps)
  have o1: "\<And>k. next_id s \<le> k \<Longrightarrow> k < next_id s + ?N \<Longrightarrow> g_life (objects s1 k) = GRAVITON_LIFE"
    by (simp add: s1_def particle_phase_simps)
  from frame_result [OF assms, of rnd, folded s1_def]
  obtain s' where f: "frame rnd s = Inr s'"
    and ge: "geom (particles s') = geom (particles s1)"
    and gr: "gravitons s' = filter (\<lambda>k. survives ?R (particles s1) (objects s1 k)) (gravitons s1)"
    and ob: "objects s' = (\<lambda>k. if k \<in> set (gravitons s1) then moved ?R (objects s1 k)
                            else objects s1 k)"
    and ni: "next_id s' = next_id s1"
    and sc: "screen s' =
         screen s @ [Fill]
         @ map (\<lambda>i. Particle_draw i (particles s ! i)) [0..<length (particles s)]
         @ map (\<lambda>k. Graviton_draw k (objects s1 k)) (gravitons s1)
         @ [Flip]"
    by blast
  have c1: "next_id s' = next_id s + ?N" using ni n1 by simp
  have c2: "length (particles s') = length (particles s)"
    using geom_length [OF ge] l1 by simp
  have c4: "drop (length (screen s)) (screen s') =
         [Fill]
         @ map (\<lambda>i. Particle_draw i (particles s ! i)) [0..<length (particles s)]
         @ map (\<lambda>k. Graviton_draw k (objects s1 k)) (gravitons s1)
         @ [Flip]"
    by (simp add: sc)
  have c3: "\<forall>k. next_id s \<le> k \<and> k < next_id s' \<longrightarrow>
           k \<notin> set (gravitons s)
           \<and> k \<in> set (gravitons s1)
           \<and> g_life (objects s1 k) = GRAVITON_LIFE
           \<and> g_life (objects s' k) = 99
           \<and> g_position (objects s' k) =
               (fst (g_position (objects s1 k)) + fst (g_forces (objects s1 k)),
                snd (g_position (objects s1 k)) + snd (g_forces (objects s1 k)))
           \<and> (k \<in> set (gravitons s') \<longleftrightarrow>
                \<not> expired ?R (objects s' k)
                \<and> (\<forall>i < length (particles s'). i \<noteq> g_creator (objects s' k) \<longrightarrow>
                      \<not> touches (particles s' ! i) (objects s' k)))
           \<and> Graviton_draw k (objects s1 k) \<in> set (drop (length (screen s)) (screen s'))"
  proof (intro allI impI)
    fix k assume "next_id s \<le> k \<and> k < next_id s'"
    then have r: "next_id s \<le> k" "k < next_id s + ?N" using c1 by simp_all
    have a: "k \<notin> set (gravitons s)" using r(1) old [of k] by auto
    have b: "k \<in> set (gravitons s1)" using r by (simp add: g1)
    have c: "g_life (objects s1 k) = GRAVITON_LIFE" using r by (rule o1)
    have m: "objects s' k = moved ?R (objects s1 k)" using b by (simp add: ob)
    have d: "g_life (objects s' k) = 99" by (simp add: m c GRAVITON_LIFE_def)
    have e: "g_position (objects s' k) =
               (fst (g_position (objects s1 k)) + fst (g_forces (objects s1 k)),
                snd (g_position (objects s1 k)) + snd (g_forces (objects s1 k)))"
      by (simp add: m)
    have t: "\<And>i. i < length (particles s') \<Longrightarrow>
        touches (particles s' ! i) (objects s' k) = touches (particles s1 ! i) (objects s' k)"
      using touches_geom [OF ge] by simp
    have "k \<in> set (gravitons s') \<longleftrightarrow> survives ?R (particles s1) (objects s1 k)"
      using b by (simp add: gr)
    also have "\<dots> \<longleftrightarrow> \<not> expired ?R (objects s' k)
                \<and> (\<forall>i < length (particles s1). i \<noteq> g_creator (objects s' k) \<longrightarrow>
                      \<not> touches (particles s1 ! i) (objects s' k))"
      unfolding m survives_def first_hit_None_iff by simp
    also have "\<dots> \<longleftrightarrow> \<not> expired ?R (objects s' k)
                \<and> (\<forall>i < length (particles s'). i \<noteq> g_creator (objects s' k) \<longrightarrow>
                      \<not> touches (particles s' ! i) (objects s' k))"
      using t l1 c2 by auto
    finally have g: "k \<in> set (gravitons s') \<longleftrightarrow>
                \<not> expired ?R (objects s' k)
                \<and> (\<forall>i < length (particles s'). i \<noteq> g_creator (objects s' k) \<longrightarrow>
                      \<not> touches (particles s' ! i) (objects s' k))" .
    have h: "Graviton_draw k (objects s1 k) \<in> set (drop (length (screen s)) (screen s'))"
      unfolding c4 using b by simp
    from a b c d e g h show "k \<notin> set (gravitons s)
           \<and> k \<in> set (gravitons s1)
           \<and> g_life (objects s1 k) = GRAVITON_LIFE
           \<and> g_life (objects s' k) = 99
           \<and> g_position (objects s' k) =
               (fst (g_position (objects s1 k)) + fst (g_forces (objects s1 k)),
                snd (g_position (objects s1 k)) + snd (g_forces (objects s1 k)))
           \<and> (k \<in> set (gravitons s') \<longleftrightarrow>
                \<not> expired ?R (objects s' k)
                \<and> (\<forall>i < length (particles s'). i \<noteq> g_creator (objects s' k) \<longrightarrow>
                      \<not> touches (particles s' ! i) (objects s' k)))
           \<and> Graviton_draw k (objects s1 k) \<in> set (drop (length (screen s)) (screen s'))"
      by blast
  qed
  show ?thesis
    by (intro exI [of _ s'] conjI) (fact f c1 c2 c3 [unfolded s1_def] c4 [unfolded s1_def])+
qed

theorem spawned_gravitons_same_frame_witness:
  "well_formed (main_init (\<lambda>_. (1 / 2, 1 / 2, 0, 0, 0)))
   \<and> (\<exists>s'. frame (\<lambda>_. 1 / 2) (main_init (\<lambda>_. (1 / 2, 1 / 2, 0, 0, 0))) = Inr s'
        \<and> next_id s' = 90
        \<and> g_life (objects s' 0) = 99)"
proof -
  let ?s = "main_init (\<lambda>_. (1 / 2, 1 / 2, 0, 0, 0))"
  have w: "well_formed ?s" by (simp add: main_init_def well_formed_def)
  have n: "next_id ?s = 0" and l: "length (particles ?s) = 3"
    by (simp_all add: main_init_def PARTICLE_COUNT_def)
  from spawned_gravitons_same_frame [OF w, of "\<lambda>_. 1 / 2"]
  obtain s' where f: "frame (\<lambda>_. 1 / 2) ?s = Inr s'"
    and i: "next_id s' = next_id ?s + length (particles ?s) * GRAVITON_CREATION_COUNT"
    and k: "\<forall>k. next_id ?s \<le> k \<and> k < next_id s' \<longrightarrow> g_life (objects s' k) = 99"
    by blast
  have i': "next_id s' = 90" using i n l by (simp add: GRAVITON_CREATION_COUNT_def)
  then have "g_life (objects s' 0) = 99" using k n by simp
  with w f i' show ?thesis by blast
qed

lemma Particle_update_at_rest:
  "p_forces p = (0, 0) \<Longrightarrow> Particle_update p limits = p"
  by (simp add: Particle_update_def update_axis_def Let_def FORCE_LIMIT_def)

lemma noise_bound:
  fixes r :: real
  assumes "0 \<le> r" and "r < 1"
  shows "\<bar>(r - 1 / 2) * GRAVITON_FORCE_ADDITION_RANGE\<bar> \<le> GRAVITON_FORCE_ADDITION_RANGE / 2"
  using assms by (simp add: GRAVITON_FORCE_ADDITION_RANGE_def abs_le_iff)

lemma single_particle_frame:
  fixes rnd :: "nat \<Rightarrow> real"
  assumes ps: "particles s = [p]" and gs: "gravitons s = []"
    and rest: "p_forces p = (0, 0)" and sz: "p_size p = PARTICLE_SIZE"
    and ib: "in_bounds SCREEN_RESOLUTION p"
    and rn: "\<forall>k. 0 \<le> rnd k \<and> rnd k < 1"
  defines "s1 \<equiv> particle_phase rnd SCREEN_RESOLUTION s"
  shows "particles s1 = [p]"
    and "gravitons s1 = [next_id s ..< next_id s + GRAVITON_CREATION_COUNT]"
    and "\<forall>k \<in> set (gravitons s1).
           g_creator (objects s1 k) = 0
           \<and> g_life (objects s1 k) = GRAVITON_LIFE
           \<and> g_size (objects s1 k) = GRAVITON_SIZE
           \<and> g_position (objects s1 k) = p_position p
           \<and> \<bar>fst (g_forces (objects s1 k)) - fst (p_forces p)\<bar> \<le> GRAVITON_FORCE_ADDITION_RANGE / 2
           \<and> \<bar>snd (g_forces (objects s1 k)) - snd (p_forces p)\<bar> \<le> GRAVITON_FORCE_ADDITION_RANGE / 2"
    and "\<exists>s'. frame rnd s = Inr s'
           \<and> gravitons s' = gravitons s1
           \<and> (\<forall>k \<in> set (gravitons s').
                 g_life (objects s' k) = 99
                 \<and> g_forces (objects s' k) = g_forces (objects s1 k)
                 \<and> g_position (objects s' k) =
                     (fst (p_position p) + fst (g_forces (objects s1 k)),
                      snd (p_position p) + snd (g_forces (objects s1 k))))"
proof -
  let ?R = "SCREEN_RESOLUTION"
  let ?C = "GRAVITON_CREATION_COUNT"
  have up: "Particle_update p ?R = p" using rest by (rule Particle_update_at_rest)
  have l1: "length (particles s1) = 1"
    by (simp add: s1_def particle_phase_simps ps)
  have "particles s1 ! 0 = p"
    using particle_phase_particles [of 0 s rnd ?R] up by (simp add: s1_def ps)
  with l1 show p1: "particles s1 = [p]"
    by (cases "particles s1") simp_all
  show g1: "gravitons s1 = [next_id s ..< next_id s + ?C]"
    by (simp add: s1_def particle_phase_simps ps gs)
  have o1: "\<And>k. k \<in> set (gravitons s1) \<Longrightarrow>
      objects s1 k = new_graviton rnd (draws s + 2 * (k - next_id s)) 0 p"
  proof -
    fix k assume "k \<in> set (gravitons s1)"
    then have r: "next_id s \<le> k" "k < next_id s + ?C" by (simp_all add: g1)
    then have "(k - next_id s) div ?C = 0" by simp
    with r up show "objects s1 k = new_graviton rnd (draws s + 2 * (k - next_id s)) 0 p"
      by (simp add: s1_def particle_phase_simps ps)
  qed
  show sp: "\<forall>k \<in> set (gravitons s1).
           g_creator (objects s1 k) = 0
           \<and> g_life (objects s1 k) = GRAVITON_LIFE
           \<and> g_size (objects s1 k) = GRAVITON_SIZE
           \<and> g_position (objects s1 k) = p_position p
           \<and> \<bar>fst (g_forces (objects s1 k)) - fst (p_forces p)\<bar> \<le> GRAVITON_FORCE_ADDITION_RANGE / 2
           \<and> \<bar>snd (g_forces (objects s1 k)) - snd (p_forces p)\<bar> \<le> GRAVITON_FORCE_ADDITION_RANGE / 2"
  proof
    fix k assume k: "k \<in> set (gravitons s1)"
    show "g_creator (objects s1 k) = 0
           \<and> g_life (objects s1 k) = GRAVITON_LIFE
           \<and> g_size (objects s1 k) = GRAVITON_SIZE
           \<and> g_position (objects s1 k) = p_position p
           \<and> \<bar>fst (g_forces (objects s1 k)) - fst (p_forces p)\<bar> \<le> GRAVITON_FORCE_ADDITION_RANGE / 2
           \<and> \<bar>snd (g_forces (objects s1 k)) - snd (p_forces p)\<bar> \<le> GRAVITON_FORCE_ADDITION_RANGE / 2"
      unfolding o1 [OF k] using rn noise_bound by simp
  qed
  have wf: "well_formed s" by (simp add: well_formed_def gs)
  from frame_result [OF wf, of rnd, folded s1_def]
  obtain s' where f: "frame rnd s = Inr s'"
    and gr: "gravitons s' = filter (\<lambda>k. survives ?R (particles s1) (objects s1 k)) (gravitons s1)"
    and ob: "objects s' = (\<lambda>k. if k \<in> set (gravitons s1) then moved ?R (objects s1 k)
                            else objects s1 k)"
    by blast
  have sv: "\<And>k. k \<in> set (gravitons s1) \<Longrightarrow> survives ?R (particles s1) (objects s1 k)"
  proof -
    fix k assume k: "k \<in> set (gravitons s1)"
    with sp have c: "g_creator (objects s1 k) = 0" and lf: "g_life (objects s1 k) = GRAVITON_LIFE"
      and po: "g_position (objects s1 k) = p_position p"
      and fx: "\<bar>fst (g_forces (objects s1 k)) - fst (p_forces p)\<bar> \<le> GRAVITON_FORCE_ADDITION_RANGE / 2"
      and fy: "\<bar>snd (g_forces (objects s1 k)) - snd (p_forces p)\<bar> \<le> GRAVITON_FORCE_ADDITION_RANGE / 2"
      by blast+
    have "\<not> expired ?R (moved ?R (objects s1 k))"
      unfolding expired_moved using lf po fx fy ib rest sz
      by (simp add: in_bounds_def GRAVITON_LIFE_def GRAVITON_FORCE_ADDITION_RANGE_def
          SCREEN_RESOLUTION_def PARTICLE_SIZE_def abs_le_iff)
    moreover have "first_hit (particles s1) (moved ?R (objects s1 k)) [0..<length (particles s1)] = None"
      unfolding first_hit_None_iff using c by (simp add: p1)
    ultimately show "survives ?R (particles s1) (objects s1 k)" by (simp add: survives_def)
  qed
  have gr': "gravitons s' = gravitons s1"
    unfolding gr using sv by (simp add: filter_id_conv)
  have fin: "\<forall>k \<in> set (gravitons s').
                 g_life (objects s' k) = 99
                 \<and> g_forces (objects s' k) = g_forces (objects s1 k)
                 \<and> g_position (objects s' k) =
                     (fst (p_position p) + fst (g_forces (objects s1 k)),
                      snd (p_position p) + snd (g_forces (objects s1 k)))"
    using sp by (simp add: gr' ob GRAVITON_LIFE_def)
  from f gr' fin show "\<exists>s'. frame rnd s = Inr s'
           \<and> gravitons s' = gravitons s1
           \<and> (\<forall>k \<in> set (gravitons s').
                 g_life (objects s' k) = 99
                 \<and> g_forces (objects s' k) = g_forces (objects s1 k)
                 \<and> g_position (objects s' k) =
                     (fst (p_position p) + fst (g_forces (objects s1 k)),
                      snd (p_position p) + snd (g_forces (objects s1 k))))"
    by blast
qed

text \<open>
  Claim C7, as the loop has it. For a single particle at rest inside the 700 by 700
  arena, the particle loop of one frame spawns exactly \<open>GRAVITON_CREATION_COUNT\<close> (30)
  gravitons, each constructed with life \<open>GRAVITON_LIFE\<close> (100), with each force
  component within \<open>GRAVITON_FORCE_ADDITION_RANGE / 2\<close> of the force component of the
  particle after its update, and with position a copy of the position of the particle
  after its update. The graviton loop of the same frame then moves each of them once and
  decrements its life: when the frame ends all 30 are in the list with life 99.
\<close>

theorem single_particle_first_frame:
  fixes rnd :: "nat \<Rightarrow> real"
  assumes "particles s = [p]" and "gravitons s = []"
    and "p_forces p = (0, 0)" and "p_size p = PARTICLE_SIZE"
    and "in_bounds SCREEN_RESOLUTION p"
    and "\<forall>k. 0 \<le> rnd k \<and> rnd k < 1"
  shows "particles (particle_phase rnd SCREEN_RESOLUTION s) = [Particle_update p SCREEN_RESOLUTION]
     \<and> length (gravitons (particle_phase rnd SCREEN_RESOLUTION s)) = 30
     \<and> (\<forall>k \<in> set (gravitons (particle_phase rnd SCREEN_RESOLUTION s)).
           g_creator (objects (particle_phase rnd SCREEN_RESOLUTION s) k) = 0
           \<and> g_life (objects (particle_phase rnd SCREEN_RESOLUTION s) k) = 100
           \<and> g_position (objects (particle_phase rnd SCREEN_RESOLUTION s) k) =
               p_position (Particle_update p SCREEN_RESOLUTION)
           \<and> \<bar>fst (g_forces (objects (particle_phase rnd SCREEN_RESOLUTION s) k))
                - fst (p_forces (Particle_update p SCREEN_RESOLUTION))\<bar>
               \<le> GRAVITON_FORCE_ADDITION_RANGE / 2
           \<and> \<bar>snd (g_forces (objects (particle_phase rnd SCREEN_RESOLUTION s) k))
                - snd (p_forces (Particle_update p SCREEN_RESOLUTION))\<bar>
               \<le> GRAVITON_FORCE_ADDITION_RANGE / 2)
     \<and> (\<exists>s'. frame rnd s = Inr s'
           \<and> gravitons s' = gravitons (particle_phase rnd SCREEN_RESOLUTION s)
           \<and> length (gravitons s') = 30
           \<and> (\<forall>k \<in> set (gravitons s').
                 g_life (objects s' k) = 99
                 \<and> g_forces (objects s' k) =
                     g_forces (objects (particle_phase rnd SCREEN_RESOLUTION s) k)
                 \<and> g_position (objects s' k) =
                     (fst (p_position (Particle_update p SCREEN_RESOLUTION))
                        + fst (g_forces (objects s' k)),
                      snd (p_position (Particle_update p SCREEN_RESOLUTION))
                        + snd (g_forces (objects s' k)))))"
proof -
  let ?s1 = "particle_phase rnd SCREEN_RESOLUTION s"
  note h = single_particle_frame [OF assms]
  have up: "Particle_update p SCREEN_RESOLUTION = p"
    using assms(3) by (rule Particle_update_at_rest)
  have len: "length (gravitons ?s1) = 30"
    by (simp add: h(2) GRAVITON_CREATION_COUNT_def)
  have a: "particles ?s1 = [Particle_update p SCREEN_RESOLUTION]"
    by (simp add: h(1) up)
  have b: "\<forall>k \<in> set (gravitons ?s1).
           g_creator (objects ?s1 k) = 0
           \<and> g_life (objects ?s1 k) = 100
           \<and> g_position (objects ?s1 k) = p_position (Particle_update p SCREEN_RESOLUTION)
           \<and> \<bar>fst (g_forces (objects ?s1 k)) - fst (p_forces (Particle_update p SCREEN_RESOLUTION))\<bar>
               \<le> GRAVITON_FORCE_ADDITION_RANGE / 2
           \<and> \<bar>snd (g_forces (objects ?s1 k)) - snd (p_forces (Particle_update p SCREEN_RESOLUTION))\<bar>
               \<le> GRAVITON_FORCE_ADDITION_RANGE / 2"
    unfolding up using h(3) by (simp add: GRAVITON_LIFE_def)
  from h(4) obtain s' where f: "frame rnd s = Inr s'" and g: "gravitons s' = gravitons ?s1"
    and k: "\<forall>k \<in> set (gravitons s').
                 g_life (objects s' k) = 99
                 \<and> g_forces (objects s' k) = g_forces (objects ?s1 k)
                 \<and> g_position (objects s' k) =
                     (fst (p_position p) + fst (g_forces (objects ?s1 k)),
                      snd (p_position p) + snd (g_forces (objects ?s1 k)))"
    by blast
  have k': "\<forall>k \<in> set (gravitons s').
                 g_life (objects s' k) = 99
                 \<and> g_forces (objects s' k) = g_forces (objects ?s1 k)
                 \<and> g_position (objects s' k) =
                     (fst (p_position (Particle_update p SCREEN_RESOLUTION))
                        + fst (g_forces (objects s' k)),
                      snd (p_position (Particle_update p SCREEN_RESOLUTION))
                        + snd (g_forces (objects s' k)))"
    unfolding up using k by simp
  have c: "\<exists>s'. frame rnd s = Inr s'
           \<and> gravitons s' = gravitons ?s1
           \<and> length (gravitons s') = 30
           \<and> (\<forall>k \<in> set (gravitons s').
                 g_life (objects s' k) = 99
                 \<and> g_forces (objects s' k) = g_forces (objects ?s1 k)
                 \<and> g_position (objects s' k) =
                     (fst (p_position (Particle_update p SCREEN_RESOLUTION))
                        + fst (g_forces (objects s' k)),
                      snd (p_position (Particle_update p SCREEN_RESOLUTION))
                        + snd (g_forces (objects s' k))))"
    using f g k' len by (intro exI [of _ s']) simp
  from a len b c show ?thesis by blast
qed

lemma single_sim_hyps:
  "particles (single_sim (example_particle (350, 350) (0, 0))) = [example_particle (350, 350) (0, 0)]"
  "gravitons (single_sim (example_particle (350, 350) (0, 0))) = []"
  "p_forces (example_particle (350, 350) (0, 0)) = (0, 0)"
  "p_size (example_particle (350, 350) (0, 0)) = PARTICLE_SIZE"
  "in_bounds SCREEN_RESOLUTION (example_particle (350, 350) (0, 0))"
  "\<forall>k. 0 \<le> (\<lambda>_. 1 / 2 :: real) k \<and> (\<lambda>_. 1 / 2 :: real) k < 1"
  by (simp_all add: single_sim_def example_particle_def in_bounds_def SCREEN_RESOLUTION_def
      PARTICLE_SIZE_def)

theorem single_particle_first_frame_witness:
  "\<exists>s'. frame (\<lambda>_. 1 / 2) (single_sim (example_particle (350, 350) (0, 0))) = Inr s'
     \<and> length (gravitons s') = 30
     \<and> (\<forall>k \<in> set (gravitons s'). g_life (objects s' k) = 99)"
  using single_particle_first_frame [OF single_sim_hyps] by blast

theorem single_particle_life_counterexample:
  "\<exists>s'. frame (\<lambda>_. 1 / 2) (single_sim (example_particle (350, 350) (0, 0))) = Inr s'
     \<and> gravitons s' = [0..<30]
     \<and> g_life (objects s' 0) = 99
     \<and> \<not> (\<forall>k \<in> set (gravitons s'). g_life (objects s' k) = 100)"
proof -
  note h = single_particle_frame [OF single_sim_hyps]
  from h(4) obtain s' where
    f: "frame (\<lambda>_. 1 / 2) (single_sim (example_particle (350, 350) (0, 0))) = Inr s'"
    and g: "gravitons s' = gravitons (particle_phase (\<lambda>_. 1 / 2) SCREEN_RESOLUTION
                                        (single_sim (example_particle (350, 350) (0, 0))))"
    and k: "\<forall>k \<in> set (gravitons s'). g_life (objects s' k) = 99"
    by blast
  have g': "gravitons s' = [0..<30]"
    unfolding g h(2) by (simp add: single_sim_def GRAVITON_CREATION_COUNT_def)
  then have "0 \<in> set (gravitons s')" by simp
  with k have "g_life (objects s' 0) = 99" by blast
  moreover from this \<open>0 \<in> set (gravitons s')\<close>
  have "\<not> (\<forall>k \<in> set (gravitons s'). g_life (objects s' k) = 100)" by force
  ultimately show ?thesis using f g' by blast
qed

section \<open>Where the force limit holds\<close>

lemma update_axis_step_bound:
  "\<bar>fst (update_axis sz pos frc lmt) - pos\<bar> \<le> FORCE_LIMIT"
  by (auto simp: update_axis_def Let_def FORCE_LIMIT_def)

lemma apply_force_axis_bound:
  "\<bar>apply_force_axis sz pos frc force lmt\<bar> \<le> \<bar>frc\<bar> + \<bar>force\<bar>"
  by (auto simp: apply_force_axis_def Let_def)

lemma apply_force_axis_lower_bound:
  "\<bar>frc\<bar> - \<bar>force\<bar> \<le> \<bar>apply_force_axis sz pos frc force lmt\<bar>"
  by (auto simp: apply_force_axis_def Let_def)

lemma Particle_update_forces_bound:
  "\<bar>fst (p_forces (Particle_update p limits))\<bar> \<le> FORCE_LIMIT"
  "\<bar>snd (p_forces (Particle_update p limits))\<bar> \<le> FORCE_LIMIT"
  by (simp_all add: Particle_update_def Let_def update_axis_force_bound)

text \<open>
  Claim C8, as the code has it. The force of a particle is clamped by \<open>update\<close> only:
  after the particle loop of every frame each particle has force components of magnitude
  at most \<open>FORCE_LIMIT\<close>, and \<open>update\<close> never moves a particle by more than
  \<open>FORCE_LIMIT\<close> on an axis. \<open>apply_force\<close> does not clamp; it changes the magnitude of
  a force component, upwards or downwards, by at most the magnitude of the applied
  component, and the next \<open>update\<close> clamps again.
\<close>

theorem force_limit_between_updates:
  fixes rnd :: "nat \<Rightarrow> real"
  shows "(\<forall>j < length (particles s).
            \<bar>fst (p_forces (particles (particle_phase rnd resolution s) ! j))\<bar> \<le> FORCE_LIMIT
            \<and> \<bar>snd (p_forces (particles (particle_phase rnd resolution s) ! j))\<bar> \<le> FORCE_LIMIT)
     \<and> \<bar>fst (p_position (Particle_update p limits)) - fst (p_position p)\<bar> \<le> FORCE_LIMIT
     \<and> \<bar>snd (p_position (Particle_update p limits)) - snd (p_position p)\<bar> \<le> FORCE_LIMIT
     \<and> \<bar>fst (p_forces (Particle_apply_force p force limits))\<bar> \<le> \<bar>fst (p_forces p)\<bar> + \<bar>fst force\<bar>
     \<and> \<bar>snd (p_forces (Particle_apply_force p force limits))\<bar> \<le> \<bar>snd (p_forces p)\<bar> + \<bar>snd force\<bar>
     \<and> \<bar>fst (p_forces p)\<bar> - \<bar>fst force\<bar> \<le> \<bar>fst (p_forces (Particle_apply_force p force limits))\<bar>
     \<and> \<bar>snd (p_forces p)\<bar> - \<bar>snd force\<bar> \<le> \<bar>snd (p_forces (Particle_apply_force p force limits))\<bar>
     \<and> \<bar>\<bar>fst (p_forces (Particle_apply_force p force limits))\<bar> - \<bar>fst (p_forces p)\<bar>\<bar> \<le> \<bar>fst force\<bar>
     \<and> \<bar>\<bar>snd (p_forces (Particle_apply_force p force limits))\<bar> - \<bar>snd (p_forces p)\<bar>\<bar> \<le> \<bar>snd force\<bar>
     \<and> (\<bar>fst (p_forces p)\<bar> \<le> FORCE_LIMIT \<longrightarrow>
          \<bar>fst (p_forces (Particle_apply_force p force limits))\<bar> \<le> FORCE_LIMIT + \<bar>fst force\<bar>)
     \<and> (\<bar>snd (p_forces p)\<bar> \<le> FORCE_LIMIT \<longrightarrow>
          \<bar>snd (p_forces (Particle_apply_force p force limits))\<bar> \<le> FORCE_LIMIT + \<bar>snd force\<bar>)
     \<and> \<bar>fst (p_forces (Particle_update (Particle_apply_force p force limits) limits))\<bar> \<le> FORCE_LIMIT
     \<and> \<bar>snd (p_forces (Particle_update (Particle_apply_force p force limits) limits))\<bar> \<le> FORCE_LIMIT"
proof -
  have a: "\<forall>j < length (particles s).
            \<bar>fst (p_forces (particles (particle_phase rnd resolution s) ! j))\<bar> \<le> FORCE_LIMIT
            \<and> \<bar>snd (p_forces (particles (particle_phase rnd resolution s) ! j))\<bar> \<le> FORCE_LIMIT"
    by (simp add: particle_phase_particles Particle_update_forces_bound)
  have b: "\<bar>fst (p_position (Particle_update p limits)) - fst (p_position p)\<bar> \<le> FORCE_LIMIT"
    "\<bar>snd (p_position (Particle_update p limits)) - snd (p_position p)\<bar> \<le> FORCE_LIMIT"
    by (simp_all add: Particle_update_def Let_def update_axis_step_bound)
  have c: "\<bar>fst (p_forces (Particle_apply_force p force limits))\<bar> \<le> \<bar>fst (p_forces p)\<bar> + \<bar>fst force\<bar>"
    "\<bar>snd (p_forces (Particle_apply_force p force limits))\<bar> \<le> \<bar>snd (p_forces p)\<bar> + \<bar>snd force\<bar>"
    by (simp_all add: Particle_apply_force_def apply_force_axis_bound)
  have d: "\<bar>fst (p_forces p)\<bar> \<le> FORCE_LIMIT \<longrightarrow>
          \<bar>fst (p_forces (Particle_apply_force p force limits))\<bar> \<le> FORCE_LIMIT + \<bar>fst force\<bar>"
    "\<bar>snd (p_forces p)\<bar> \<le> FORCE_LIMIT \<longrightarrow>
          \<bar>snd (p_forces (Particle_apply_force p force limits))\<bar> \<le> FORCE_LIMIT + \<bar>snd force\<bar>"
    using c by linarith+
  have l: "\<bar>fst (p_forces p)\<bar> - \<bar>fst force\<bar> \<le> \<bar>fst (p_forces (Particle_apply_force p force limits))\<bar>"
    "\<bar>snd (p_forces p)\<bar> - \<bar>snd force\<bar> \<le> \<bar>snd (p_forces (Particle_apply_force p force limits))\<bar>"
    by (simp_all add: Particle_apply_force_def apply_force_axis_lower_bound)
  have m: "\<bar>\<bar>fst (p_forces (Particle_apply_force p force limits))\<bar> - \<bar>fst (p_forces p)\<bar>\<bar> \<le> \<bar>fst force\<bar>"
    "\<bar>\<bar>snd (p_forces (Particle_apply_force p force limits))\<bar> - \<bar>snd (p_forces p)\<bar>\<bar> \<le> \<bar>snd force\<bar>"
    using c l by linarith+
  note e = Particle_update_forces_bound [of "Particle_apply_force p force limits" limits]
  from a b c l m d e show ?thesis by blast
qed

theorem force_limit_between_updates_witness:
  "\<bar>fst (p_forces (particles (particle_phase (\<lambda>_. 0) SCREEN_RESOLUTION
                                 (main_init (\<lambda>_. (1 / 2, 1 / 2, 0, 0, 0))) ) ! 0))\<bar> \<le> FORCE_LIMIT
   \<and> \<bar>fst (p_forces (example_particle (350, 350) (2, 0)))\<bar> \<le> FORCE_LIMIT
   \<and> \<bar>fst (p_forces (Particle_apply_force (example_particle (350, 350) (2, 0)) (1 / 20, 0)
                        SCREEN_RESOLUTION))\<bar> \<le> FORCE_LIMIT + \<bar>1 / 20\<bar>"
proof -
  have l: "0 < length (particles (main_init (\<lambda>_. (1 / 2, 1 / 2, 0, 0, 0))))"
    by (simp add: main_init_def PARTICLE_COUNT_def)
  have h: "\<bar>fst (p_forces (example_particle (350, 350) (2, 0)))\<bar> \<le> FORCE_LIMIT"
    by (simp add: example_particle_def FORCE_LIMIT_def)
  note t = force_limit_between_updates
    [of "main_init (\<lambda>_. (1 / 2, 1 / 2, 0, 0, 0))" "\<lambda>_. 0" SCREEN_RESOLUTION
        "example_particle (350, 350) (2, 0)" SCREEN_RESOLUTION "(1 / 20, 0)"]
  from t l have "\<bar>fst (p_forces (particles (particle_phase (\<lambda>_. 0) SCREEN_RESOLUTION
                                 (main_init (\<lambda>_. (1 / 2, 1 / 2, 0, 0, 0))) ) ! 0))\<bar> \<le> FORCE_LIMIT"
    by blast
  moreover from t h have "\<bar>fst (p_forces (Particle_apply_force (example_particle (350, 350) (2, 0))
                        (1 / 20, 0) SCREEN_RESOLUTION))\<bar> \<le> FORCE_LIMIT + \<bar>fst (1 / 20 :: real, 0 :: real)\<bar>"
    by blast
  ultimately show ?thesis using h by simp
qed

theorem force_limit_counterexample:
  "\<exists>s'. process_graviton SCREEN_RESOLUTION 0
          (example_sim [example_particle (100, 100) (0, 0),
                        Particle_update (example_particle (350, 350) (5 / 2, 0)) SCREEN_RESOLUTION]
             (example_graviton 0 (357, 350) (- 5, 0) 50)) = Inr s'
     \<and> p_forces (Particle_update (example_particle (350, 350) (5 / 2, 0)) SCREEN_RESOLUTION) = (2, 0)
     \<and> p_forces (particles s' ! 1) = (41 / 20, 0)
     \<and> \<not> \<bar>fst (p_forces (particles s' ! 1))\<bar> \<le> FORCE_LIMIT"
  by (simp add: process_graviton_def example_sim_def example_graviton_def example_particle_def
      Let_def moved_def Graviton_update_def expired_def SCREEN_RESOLUTION_def touches_iff
      impulse_def GRAVITON_FORCE_APPLY_MULTIPLIER_def GRAVITON_SIZE_def PARTICLE_SIZE_def
      Particle_apply_force_def apply_force_axis_def remove_graviton_def
      Particle_update_def update_axis_def FORCE_LIMIT_def)

section \<open>Independence of the lists of a graviton\<close>

lemma stor_fields [simp]:
  "next_addr (stor a i x h) = next_addr h"
  "b \<noteq> a \<Longrightarrow> cells (stor a i x h) b = cells h b"
  "cells (stor a i x h) a = set_item (cells h a) i x"
  by (simp_all add: stor_def)

lemma load_stor:
  "load (stor a i x h) b j = (if b = a \<and> (j = 0 \<longleftrightarrow> i = 0) then x else load h b j)"
  by (auto simp: load_def stor_def item_def set_item_def)

lemma Particle_update_item_frame:
  "next_addr (Particle_update_item self limits i h) = next_addr h"
  "a \<noteq> o_position self \<Longrightarrow> a \<noteq> o_forces self \<Longrightarrow>
   cells (Particle_update_item self limits i h) a = cells h a"
  by (simp_all add: Particle_update_item_def Let_def)

lemma Particle_apply_force_item_frame:
  "next_addr (Particle_apply_force_item self force limits i h) = next_addr h"
  "a \<noteq> o_position self \<Longrightarrow> a \<noteq> o_forces self \<Longrightarrow>
   cells (Particle_apply_force_item self force limits i h) a = cells h a"
  by (simp_all add: Particle_apply_force_item_def Let_def)

lemma do_call_store_frame:
  "next_addr (do_call_store limits self h c) = next_addr h"
  "a \<noteq> o_position self \<Longrightarrow> a \<noteq> o_forces self \<Longrightarrow>
   cells (do_call_store limits self h c) a = cells h a"
  by (cases c; simp add: Particle_update_store_def Particle_apply_force_store_def
      Particle_update_item_frame Particle_apply_force_item_frame)+

lemma run_calls_store_frame:
  "next_addr (run_calls_store limits self cs h) = next_addr h"
  "a \<noteq> o_position self \<Longrightarrow> a \<noteq> o_forces self \<Longrightarrow>
   cells (run_calls_store limits self cs h) a = cells h a"
  unfolding run_calls_store_def
  by (induction cs arbitrary: h) (simp_all add: do_call_store_frame)

lemma Graviton_init_store_result:
  assumes "Graviton_init_store cref creator pos frc sz lf h = (g, h')"
  shows "go_position g = next_addr h" and "go_forces g = Suc (next_addr h)"
    and "next_addr h' = Suc (Suc (next_addr h))"
    and "cells h' (go_position g) = cells h pos"
    and "frc < next_addr h \<Longrightarrow> cells h' (go_forces g) = cells h frc"
    and "\<And>a. a < next_addr h \<Longrightarrow> cells h' a = cells h a"
    and "go_creator g = cref" and "go_size g = sz" and "go_life g = lf"
  using assms
  by (auto simp: Graviton_init_store_def list_copy_def split: prod.splits)

lemma spawn_store_result:
  assumes "spawn_store r0 r1 cref particle h = (g, h')"
  shows "go_position g = Suc (Suc (next_addr h))" and "go_forces g = Suc (Suc (Suc (next_addr h)))"
    and "next_addr h' = Suc (Suc (Suc (Suc (next_addr h))))"
    and "cells h' (go_position g) = cells h (o_position particle)"
    and "o_forces particle < next_addr h \<Longrightarrow> cells h' (go_forces g) =
           (fst (cells h (o_forces particle)) + (r0 - 1 / 2) * GRAVITON_FORCE_ADDITION_RANGE,
            snd (cells h (o_forces particle)) + (r1 - 1 / 2) * GRAVITON_FORCE_ADDITION_RANGE)"
    and "\<And>a. a < next_addr h \<Longrightarrow> cells h' a = cells h a"
  using assms
  by (auto simp: spawn_store_def Graviton_init_store_def list_copy_def list_new_def load_def
      item_def split: prod.splits)

text \<open>
  Claim C9. The position and forces of a graviton are list objects of its own, copies
  of the lists given to the constructor: they hold the values of those lists, and no
  later \<open>update\<close> or \<open>apply_force\<close> call on a particle that existed when the graviton
  was constructed changes them, even when the graviton was constructed from the
  position and forces lists of that very particle. The same holds for a graviton made
  by the spawning code of \<open>main\<close>.
\<close>

theorem graviton_vectors_independent:
  assumes "o_position self < next_addr h" and "o_forces self < next_addr h"
  shows "(pos < next_addr h \<and> frc < next_addr h
         \<and> Graviton_init_store cref creator pos frc sz lf h = (g, h1) \<longrightarrow>
           cells h1 (go_position g) = cells h pos
           \<and> cells h1 (go_forces g) = cells h frc
           \<and> go_position g \<noteq> pos \<and> go_forces g \<noteq> frc \<and> go_position g \<noteq> go_forces g
           \<and> cells (run_calls_store limits self cs h1) (go_position g) = cells h pos
           \<and> cells (run_calls_store limits self cs h1) (go_forces g) = cells h frc)
     \<and> (Graviton_init_store cref self (o_position self) (o_forces self) sz lf h = (g, h1) \<longrightarrow>
           cells (run_calls_store limits self cs h1) (go_position g) = cells h (o_position self)
           \<and> cells (run_calls_store limits self cs h1) (go_forces g) = cells h (o_forces self))
     \<and> (spawn_store r0 r1 cref self h = (g, h1) \<longrightarrow>
           cells (run_calls_store limits self cs h1) (go_position g) = cells h1 (go_position g)
           \<and> cells (run_calls_store limits self cs h1) (go_forces g) = cells h1 (go_forces g)
           \<and> cells h1 (go_position g) = cells h (o_position self)
           \<and> cells h1 (go_forces g) =
               (fst (cells h (o_forces self)) + (r0 - 1 / 2) * GRAVITON_FORCE_ADDITION_RANGE,
                snd (cells h (o_forces self)) + (r1 - 1 / 2) * GRAVITON_FORCE_ADDITION_RANGE))"
proof (intro conjI impI)
  assume "pos < next_addr h \<and> frc < next_addr h
         \<and> Graviton_init_store cref creator pos frc sz lf h = (g, h1)"
  then have al: "pos < next_addr h" "frc < next_addr h"
    and a: "Graviton_init_store cref creator pos frc sz lf h = (g, h1)" by simp_all
  note r = Graviton_init_store_result [OF a]
  have ne: "go_position g \<noteq> o_position self" "go_position g \<noteq> o_forces self"
    "go_forces g \<noteq> o_position self" "go_forces g \<noteq> o_forces self"
    using assms r(1,2) by simp_all
  show "cells h1 (go_position g) = cells h pos" by (rule r(4))
  show "cells h1 (go_forces g) = cells h frc" using al(2) by (rule r(5))
  show "go_position g \<noteq> pos" using al(1) r(1) by simp
  show "go_forces g \<noteq> frc" using al(2) r(2) by simp
  show "go_position g \<noteq> go_forces g" using r(1,2) by simp
  show "cells (run_calls_store limits self cs h1) (go_position g) = cells h pos"
    using run_calls_store_frame(2) [OF ne(1,2)] r(4) by simp
  show "cells (run_calls_store limits self cs h1) (go_forces g) = cells h frc"
    using run_calls_store_frame(2) [OF ne(3,4)] r(5) [OF al(2)] by simp
next
  assume a: "Graviton_init_store cref self (o_position self) (o_forces self) sz lf h = (g, h1)"
  note r = Graviton_init_store_result [OF a]
  have ne: "go_position g \<noteq> o_position self" "go_position g \<noteq> o_forces self"
    "go_forces g \<noteq> o_position self" "go_forces g \<noteq> o_forces self"
    using assms r(1,2) by simp_all
  show "cells (run_calls_store limits self cs h1) (go_position g) = cells h (o_position self)"
    using run_calls_store_frame(2) [OF ne(1,2)] r(4) by simp
  show "cells (run_calls_store limits self cs h1) (go_forces g) = cells h (o_forces self)"
    using run_calls_store_frame(2) [OF ne(3,4)] r(5) [OF assms(2)] by simp
next
  assume a: "spawn_store r0 r1 cref self h = (g, h1)"
  note r = spawn_store_result [OF a]
  have ne: "go_position g \<noteq> o_position self" "go_position g \<noteq> o_forces self"
    "go_forces g \<noteq> o_position self" "go_forces g \<noteq> o_forces self"
    using assms r(1,2) by simp_all
  show "cells (run_calls_store limits self cs h1) (go_position g) = cells h1 (go_position g)"
    using run_calls_store_frame(2) [OF ne(1,2)] by simp
  show "cells (run_calls_store limits self cs h1) (go_forces g) = cells h1 (go_forces g)"
    using run_calls_store_frame(2) [OF ne(3,4)] by simp
  show "cells h1 (go_position g) = cells h (o_position self)" by (rule r(4))
  show "cells h1 (go_forces g) =
               (fst (cells h (o_forces self)) + (r0 - 1 / 2) * GRAVITON_FORCE_ADDITION_RANGE,
                snd (cells h (o_forces self)) + (r1 - 1 / 2) * GRAVITON_FORCE_ADDITION_RANGE)"
    using assms(2) by (rule r(5))
qed

theorem graviton_vectors_independent_witness:
  "o_position example_particle_obj < next_addr example_store
   \<and> o_forces example_particle_obj < next_addr example_store
   \<and> cells (run_calls_store SCREEN_RESOLUTION example_particle_obj
             [Update, Apply_force (3, 4), Update]
             (snd (Graviton_init_store 0 example_particle_obj 0 1 1 100 example_store)))
        (go_position (fst (Graviton_init_store 0 example_particle_obj 0 1 1 100 example_store)))
      = (350, 350)
   \<and> cells (run_calls_store SCREEN_RESOLUTION example_particle_obj
             [Update, Apply_force (3, 4), Update]
             (snd (Graviton_init_store 0 example_particle_obj 0 1 1 100 example_store)))
        (go_forces (fst (Graviton_init_store 0 example_particle_obj 0 1 1 100 example_store)))
      = (1, - 1)"
proof -
  let ?r = "Graviton_init_store 0 example_particle_obj 0 1 1 100 example_store"
  have h1: "o_position example_particle_obj < next_addr example_store"
    and h2: "o_forces example_particle_obj < next_addr example_store"
    by (simp_all add: example_particle_obj_def example_store_def)
  have e: "Graviton_init_store 0 example_particle_obj (o_position example_particle_obj)
             (o_forces example_particle_obj) 1 100 example_store = (fst ?r, snd ?r)"
    by (simp add: example_particle_obj_def)
  from graviton_vectors_independent [OF h1 h2, of 0 _ _ _ 1 100 "fst ?r" "snd ?r"
      SCREEN_RESOLUTION "[Update, Apply_force (3, 4), Update]"] e
  have "cells (run_calls_store SCREEN_RESOLUTION example_particle_obj
             [Update, Apply_force (3, 4), Update] (snd ?r)) (go_position (fst ?r))
          = cells example_store (o_position example_particle_obj)
        \<and> cells (run_calls_store SCREEN_RESOLUTION example_particle_obj
             [Update, Apply_force (3, 4), Update] (snd ?r)) (go_forces (fst ?r))
          = cells example_store (o_forces example_particle_obj)"
    by blast
  with h1 h2 show ?thesis
    by (simp add: example_particle_obj_def example_store_def)
qed

lemma Particle_update_item_cells:
  assumes "o_position self \<noteq> o_forces self"
  shows "cells (Particle_update_item self limits i h) (o_position self) =
           set_item (cells h (o_position self)) i
             (fst (update_axis (o_size self) (item (cells h (o_position self)) i)
                     (item (cells h (o_forces self)) i) (item limits i)))"
    and "cells (Particle_update_item self limits i h) (o_forces self) =
           set_item (cells h (o_forces self)) i
             (snd (update_axis (o_size self) (item (cells h (o_position self)) i)
                     (item (cells h (o_forces self)) i) (item limits i)))"
  using assms
  by (simp_all add: Particle_update_item_def update_axis_def Let_def load_def stor_def
      item_def set_item_def)

lemma Particle_apply_force_item_cells:
  assumes "o_position self \<noteq> o_forces self"
  shows "cells (Particle_apply_force_item self force limits i h) (o_position self) =
           cells h (o_position self)"
    and "cells (Particle_apply_force_item self force limits i h) (o_forces self) =
           set_item (cells h (o_forces self)) i
             (apply_force_axis (o_size self) (item (cells h (o_position self)) i)
                (item (cells h (o_forces self)) i) (item force i) (item limits i))"
  using assms
  by (simp_all add: Particle_apply_force_item_def apply_force_axis_def Let_def load_def stor_def
      item_def set_item_def)

lemma Particle_update_store_refines:
  assumes "o_position self \<noteq> o_forces self"
  shows "particle_of (Particle_update_store self limits h) self =
         Particle_update (particle_of h self) limits"
  by (simp add: particle_of_def Particle_update_store_def Particle_update_def Let_def
      Particle_update_item_cells [OF assms] item_def set_item_def)

lemma Particle_apply_force_store_refines:
  assumes "o_position self \<noteq> o_forces self"
  shows "particle_of (Particle_apply_force_store self force limits h) self =
         Particle_apply_force (particle_of h self) force limits"
  by (simp add: particle_of_def Particle_apply_force_store_def Particle_apply_force_def
      Particle_apply_force_item_cells [OF assms] item_def set_item_def)

lemma Graviton_init_store_refines:
  assumes "pos < next_addr h" and "frc < next_addr h"
    and "Graviton_init_store cref creator pos frc sz lf h = (g, h')"
  shows "graviton_of h' g =
         Graviton_init cref (particle_of h creator) (cells h pos) (cells h frc) sz lf"
  using assms
  by (auto simp: graviton_of_def Graviton_init_store_def Graviton_init_def particle_of_def
      list_copy_def split: prod.splits)

end
